theory Spec2Isabelle
  imports Complex_Main "HOL-Library.Sublist"
begin

section \<open>Ingestion task executor (utils/tasks.py)\<close>

text \<open>
  \<^verbatim>\<open>TaskStatus\<close> is the enum of the source. A row of the \<^verbatim>\<open>Task\<close> table is a record;
  the database session is a finite map from task ids to rows. Times are the values of
  \<^verbatim>\<open>datetime.utcnow()\<close> at the point of the call, passed in as natural numbers.
  The database is a collaborator: each \<^verbatim>\<open>session.get\<close> and \<^verbatim>\<open>session.commit\<close> of
  \<^verbatim>\<open>_execute_task\<close> succeeds or raises, as the environment decides.
\<close>

datatype TaskStatus = PENDING | RUNNING | COMPLETED | FAILED | CANCELLED

record task =
  task_id :: string
  task_type :: string
  status :: TaskStatus
  created_at :: nat
  started_at :: "nat option"
  completed_at :: "nat option"
  result :: "string option"
  error :: "string option"

type_synonym session = "string \<rightharpoonup> task"

text \<open>What awaiting \<^verbatim>\<open>task_func()\<close> produces: a value, or an exception of the class
  \<^verbatim>\<open>Exception\<close>, which the handler of line 81 catches, with \<^verbatim>\<open>str(e)\<close> as the carried
  message.\<close>

datatype outcome = Returned string | Raised string

definition terminal :: "TaskStatus \<Rightarrow> bool" where
  "terminal st = (st = COMPLETED \<or> st = FAILED \<or> st = CANCELLED)"

text \<open>\<^verbatim>\<open>submit_task\<close>, lines 36--47: the row is created PENDING and committed. The id is
  the fresh \<^verbatim>\<open>uuid4\<close> string.\<close>

definition submit_task :: "string \<Rightarrow> string \<Rightarrow> nat \<Rightarrow> session \<Rightarrow> session" where
  "submit_task tid ttype now s =
     s(tid \<mapsto> \<lparr>task_id = tid, task_type = ttype, status = PENDING, created_at = now,
                started_at = None, completed_at = None, result = None, error = None\<rparr>)"

text \<open>\<^verbatim>\<open>_execute_task\<close>, lines 63--68: once the semaphore is held, the row is set to
  RUNNING whatever its status is.\<close>

definition mark_running :: "string \<Rightarrow> nat \<Rightarrow> session \<Rightarrow> session" where
  "mark_running tid now s =
     (case s tid of
        None \<Rightarrow> s
      | Some t \<Rightarrow> s(tid \<mapsto> t\<lparr>status := RUNNING, started_at := Some now\<rparr>))"

text \<open>Lines 73--79 (the pipeline returned) and lines 81--90 (it raised).\<close>

definition mark_completed :: "string \<Rightarrow> nat \<Rightarrow> string \<Rightarrow> session \<Rightarrow> session" where
  "mark_completed tid now r s =
     (case s tid of
        None \<Rightarrow> s
      | Some t \<Rightarrow> s(tid \<mapsto> t\<lparr>status := COMPLETED, completed_at := Some now,
                                result := Some r\<rparr>))"

definition mark_failed :: "string \<Rightarrow> nat \<Rightarrow> string \<Rightarrow> session \<Rightarrow> session" where
  "mark_failed tid now msg s =
     (case s tid of
        None \<Rightarrow> s
      | Some t \<Rightarrow> s(tid \<mapsto> t\<lparr>status := FAILED, completed_at := Some now,
                                error := Some msg\<rparr>))"

text \<open>\<^verbatim>\<open>cancel_task\<close>, lines 109--124. The dictionary \<^verbatim>\<open>self._tasks\<close> is created empty
  and no method of the class ever stores into it (\<^verbatim>\<open>submit_task\<close> drops the handle that
  \<^verbatim>\<open>asyncio.create_task\<close> returns), so the branch that would cancel the running coroutine
  is never entered; the model has only the update of the row.\<close>

definition cancel_task :: "string \<Rightarrow> nat \<Rightarrow> session \<Rightarrow> bool \<times> session" where
  "cancel_task tid now s =
     (case s tid of
        None \<Rightarrow> (False, s)
      | Some t \<Rightarrow>
          if status t \<noteq> PENDING \<and> status t \<noteq> RUNNING then (False, s)
          else (True, s(tid \<mapsto> t\<lparr>status := CANCELLED, completed_at := Some now\<rparr>)))"

text \<open>While the pipeline is awaited, other requests run on the same session: here the
  cancel requests, each with the id it names and its time.\<close>

fun cancel_all :: "(string \<times> nat) list \<Rightarrow> session \<Rightarrow> session" where
  "cancel_all [] s = s"
| "cancel_all ((tid, now) # cs) s = cancel_all cs (snd (cancel_task tid now s))"

text \<open>What the database does at the six session operations of \<^verbatim>\<open>_execute_task\<close>:
  \<open>None\<close> when the operation succeeds, the message of the exception when it raises. The
  session is the one the pipeline works on (the callers pass their request session to
  \<^verbatim>\<open>submit_task\<close> and use it inside the pipeline function).\<close>

record db =
  get_running_raises :: "string option"
  commit_running_raises :: "string option"
  get_completed_raises :: "string option"
  commit_completed_raises :: "string option"
  get_failed_raises :: "string option"
  commit_failed_raises :: "string option"

text \<open>The pattern of lines 64--68, 74--79 and 85--90: \<^verbatim>\<open>session.get\<close>, then, if the row
  exists, the assignments and \<^verbatim>\<open>session.commit\<close>. A commit that raises leaves the table
  as it was.\<close>

definition session_update ::
  "string option \<Rightarrow> string option \<Rightarrow> string \<Rightarrow> (session \<Rightarrow> session) \<Rightarrow> session
     \<Rightarrow> string + session" where
  "session_update get_raises commit_raises tid update s =
     (case get_raises of
        Some m \<Rightarrow> Inl m
      | None \<Rightarrow>
          (case s tid of
             None \<Rightarrow> Inr s
           | Some t \<Rightarrow>
               (case commit_raises of
                  Some m \<Rightarrow> Inl m
                | None \<Rightarrow> Inr (update s))))"

text \<open>The handler of lines 81--90. Its session operations are in no \<^verbatim>\<open>try\<close>: when one of
  them raises, the exception leaves \<^verbatim>\<open>_execute_task\<close> (\<open>Inl\<close>) and the row is not
  changed.\<close>

definition handle_failure ::
  "db \<Rightarrow> string \<Rightarrow> nat \<Rightarrow> string \<Rightarrow> session \<Rightarrow> (string + unit) \<times> session" where
  "handle_failure d tid now msg s =
     (case session_update (get_failed_raises d) (commit_failed_raises d) tid
             (mark_failed tid now msg) s of
        Inl m \<Rightarrow> (Inl m, s)
      | Inr s' \<Rightarrow> (Inr (), s'))"

text \<open>The whole of \<^verbatim>\<open>_execute_task\<close>: the update to RUNNING, the awaited pipeline (with
  the cancel requests that arrive meanwhile), the update to COMPLETED; every exception
  of these three steps goes to the handler with its message.\<close>

definition execute_task ::
  "db \<Rightarrow> string \<Rightarrow> nat \<Rightarrow> nat \<Rightarrow> (string \<times> nat) list \<Rightarrow> outcome \<Rightarrow> session
     \<Rightarrow> (string + unit) \<times> session" where
  "execute_task d tid t0 t1 during out s =
     (case session_update (get_running_raises d) (commit_running_raises d) tid
             (mark_running tid t0) s of
        Inl m \<Rightarrow> handle_failure d tid t1 m s
      | Inr s1 \<Rightarrow>
          (case out of
             Raised msg \<Rightarrow> handle_failure d tid t1 msg (cancel_all during s1)
           | Returned r \<Rightarrow>
               (case session_update (get_completed_raises d) (commit_completed_raises d) tid
                       (mark_completed tid t1 r) (cancel_all during s1) of
                  Inl m \<Rightarrow> handle_failure d tid t1 m (cancel_all during s1)
                | Inr s3 \<Rightarrow> (Inr (), s3))))"

definition status_of :: "session \<Rightarrow> string \<Rightarrow> TaskStatus option" where
  "status_of s tid = map_option status (s tid)"


section \<open>Exceptions\<close>

text \<open>Exceptions are values: the classes of Python that the modelled code can meet.\<close>

datatype py_error =
    KeyError string
  | ValueError string
  | TypeError string
  | IndexError
  | AttributeError
  | AssertionError
  | ZeroDivisionError

section \<open>Retrieved units and citations (services/rag.py)\<close>

text \<open>
  A retrieved unit is the dictionary that the index returns for a hit. Its location is
  the dictionary built by the chunker (page, type, section). A document id may be
  absent (\<^verbatim>\<open>chunk.get('document_id')\<close> is then \<^verbatim>\<open>None\<close>). Scores are Python floats;
  the model takes them as reals.
\<close>

record location =
  loc_page :: "int option"
  loc_type :: string
  loc_section :: string

record hit =
  hit_chunk_id :: string
  hit_score :: real
  hit_text :: string
  hit_document_id :: "int option"
  hit_location :: location
  hit_headings :: "string list"


definition is_digit :: "char \<Rightarrow> bool" where
  "is_digit c = (48 \<le> (of_char c :: nat) \<and> (of_char c :: nat) \<le> 57)"



















section \<open>Local vector index (services/index_faiss.py)\<close>

text \<open>
  The FAISS library is not part of the repository: the model
  keeps of the library index its dimension and its number of vectors, and takes the
  nearest-neighbour search (normalising the query and calling \<^verbatim>\<open>self.index.search\<close>,
  lines 92--97) as a parameter \<open>knn\<close> that, for a query and a number \<open>k\<close>, raises or returns
  the pairs of score and position.
\<close>

record meta =
  meta_chunk_id :: string
  meta_text :: string
  meta_document_id :: "int option"
  meta_location :: location
  meta_headings :: "string list"

record flat_index =
  fi_d :: nat
  fi_ntotal :: nat

record FAISSIndex =
  fx_index :: "flat_index option"
  fx_metadata :: "meta list"

type_synonym knn_search = "real list \<Rightarrow> int \<Rightarrow> py_error + (real \<times> int) list"

text \<open>Reading a Python list at an integer position: negative positions count from the
  end, positions outside the list raise.\<close>

definition py_get :: "'a list \<Rightarrow> int \<Rightarrow> py_error + 'a" where
  "py_get xs i =
     (if 0 \<le> i \<and> i < int (length xs) then Inr (xs ! nat i)
      else if i < 0 \<and> - int (length xs) \<le> i then Inr (xs ! nat (int (length xs) + i))
      else Inl IndexError)"

definition make_hit :: "meta \<Rightarrow> real \<Rightarrow> hit" where
  "make_hit m score =
     \<lparr>hit_chunk_id = meta_chunk_id m, hit_score = score, hit_text = meta_text m,
      hit_document_id = meta_document_id m, hit_location = meta_location m,
      hit_headings = meta_headings m\<rparr>"

text \<open>The test of line 109: a filter that is \<^verbatim>\<open>None\<close> or the empty list filters nothing;
  otherwise a unit is dropped when its document id is not in the list.\<close>

definition filtered_out :: "int list option \<Rightarrow> int option \<Rightarrow> bool" where
  "filtered_out filter_document_ids doc =
     (case filter_document_ids of
        None \<Rightarrow> False
      | Some ids \<Rightarrow> ids \<noteq> [] \<and> (case doc of None \<Rightarrow> True | Some d \<Rightarrow> d \<notin> set ids))"

text \<open>The loop of lines 102--128 over the pairs the library returned, with \<^verbatim>\<open>results\<close>
  and \<^verbatim>\<open>seen_docs\<close> as accumulators.\<close>

fun search_loop ::
  "meta list \<Rightarrow> int \<Rightarrow> int list option \<Rightarrow> (real \<times> int) list \<Rightarrow> hit list \<Rightarrow> int option set
     \<Rightarrow> py_error + hit list" where
  "search_loop md top_k flt [] results seen_docs = Inr results"
| "search_loop md top_k flt ((score, idx) # rest) results seen_docs =
     (if idx \<ge> int (length md) then search_loop md top_k flt rest results seen_docs
      else case py_get md idx of
             Inl e \<Rightarrow> Inl e
           | Inr m \<Rightarrow>
               if filtered_out flt (meta_document_id m)
               then search_loop md top_k flt rest results seen_docs
               else if meta_document_id m \<in> seen_docs
               then search_loop md top_k flt rest results seen_docs
               else (let results' = results @ [make_hit m score]
                     in if int (length results') \<ge> top_k then Inr results'
                        else search_loop md top_k flt rest results'
                               (insert (meta_document_id m) seen_docs)))"

text \<open>The body of \<^verbatim>\<open>FAISSIndex.search\<close> inside its \<^verbatim>\<open>try\<close>; reading \<^verbatim>\<open>ntotal\<close> of an index
  that is \<^verbatim>\<open>None\<close> (after \<^verbatim>\<open>delete_collection\<close>) raises.\<close>

definition search_body ::
  "FAISSIndex \<Rightarrow> knn_search \<Rightarrow> real list \<Rightarrow> int \<Rightarrow> int list option \<Rightarrow> py_error + hit list" where
  "search_body fx knn query_embedding top_k flt =
     (case fx_index fx of
        None \<Rightarrow> Inl AttributeError
      | Some ix \<Rightarrow>
          if fi_ntotal ix = 0 then Inr []
          else (case knn query_embedding (min (top_k * 2) (int (fi_ntotal ix))) of
                  Inl e \<Rightarrow> Inl e
                | Inr raw \<Rightarrow> search_loop (fx_metadata fx) top_k flt raw [] {}))"

text \<open>\<^verbatim>\<open>FAISSIndex.search\<close>: the handler of lines 132--134 logs and returns the empty list.\<close>

definition faiss_search ::
  "FAISSIndex \<Rightarrow> knn_search \<Rightarrow> real list \<Rightarrow> int \<Rightarrow> int list option \<Rightarrow> hit list" where
  "faiss_search fx knn query_embedding top_k flt =
     (case search_body fx knn query_embedding top_k flt of
        Inl e \<Rightarrow> []
      | Inr results \<Rightarrow> results)"

section \<open>Composed index with the optional remote index (services/index.py)\<close>

text \<open>
  The Qdrant client is a collaborator: its search, for a limit, raises or returns points.
  The payloads are those written by \<^verbatim>\<open>add_chunks\<close>, which always carry the four keys read
  at lines 139--142, so a returned point is taken in the converted form of lines 136--143.
  Should the conversion of a point raise, the hits merged before it stay in the list:
  this is the case of a shorter answer.
\<close>

type_synonym qdrant_search = "int \<Rightarrow> py_error + hit list"

text \<open>Lines 135--147: each converted hit is appended unless a hit of the list, as
  grown so far, has its chunk id.\<close>

fun merge_qdrant :: "hit list \<Rightarrow> hit list \<Rightarrow> hit list" where
  "merge_qdrant faiss_results [] = faiss_results"
| "merge_qdrant faiss_results (q # qs) =
     (if hit_chunk_id q \<in> set (map hit_chunk_id faiss_results)
      then merge_qdrant faiss_results qs
      else merge_qdrant (faiss_results @ [q]) qs)"

text \<open>\<^verbatim>\<open>VectorIndex.search\<close>. The slice \<^verbatim>\<open>faiss_results[:top_k]\<close> is reached only with
  \<^verbatim>\<open>len(faiss_results) < top_k\<close>, hence with a positive \<^verbatim>\<open>top_k\<close>.\<close>

definition vector_search ::
  "bool \<Rightarrow> qdrant_search \<Rightarrow> FAISSIndex \<Rightarrow> knn_search \<Rightarrow> real list \<Rightarrow> int \<Rightarrow> int list option
     \<Rightarrow> hit list" where
  "vector_search use_qdrant qdrant fx knn query_embedding top_k flt =
     (let faiss_results = faiss_search fx knn query_embedding top_k flt
      in if int (length faiss_results) \<ge> top_k then faiss_results
         else if use_qdrant
         then (case qdrant (top_k - int (length faiss_results)) of
                 Inl e \<Rightarrow> take (nat top_k) faiss_results
               | Inr qdrant_results \<Rightarrow> take (nat top_k) (merge_qdrant faiss_results qdrant_results))
         else take (nat top_k) faiss_results)"

section \<open>Adding units and saving the index (services/index_faiss.py)\<close>

text \<open>
  A unit handed to \<^verbatim>\<open>add_chunks\<close> is a dictionary: the keys read with \<^verbatim>\<open>chunk[...]\<close> may
  be missing (\<open>None\<close> here, a \<^verbatim>\<open>KeyError\<close> there); \<^verbatim>\<open>document_id\<close> and \<^verbatim>\<open>headings\<close> are
  read with \<^verbatim>\<open>get\<close>. The two files of a collection are what the disk holds: \<open>None\<close> is a
  file that is absent or not readable. Writing is decided by the environment: a write
  succeeds, or raises and leaves the file in the state given.

  The value under \<^verbatim>\<open>embedding\<close> is a list of Python floats, as \<^verbatim>\<open>embed_chunks\<close> stores it
  (\<^verbatim>\<open>embeddings.tolist()\<close>), or an array of 32-bit floats. \<^verbatim>\<open>np.array\<close> makes of lists of
  Python floats an array of 64-bit floats.
\<close>

datatype embedding = PythonFloats "real list" | Float32Array "real list"

fun components :: "embedding \<Rightarrow> real list" where
  "components (PythonFloats vs) = vs"
| "components (Float32Array vs) = vs"

fun is_float32 :: "embedding \<Rightarrow> bool" where
  "is_float32 (PythonFloats vs) = False"
| "is_float32 (Float32Array vs) = True"

record in_chunk =
  in_chunk_id :: "string option"
  in_text :: "string option"
  in_embedding :: "embedding option"
  in_document_id :: "int option"
  in_location :: "location option"
  in_headings :: "string list option"

record disk =
  disk_index :: "flat_index option"
  disk_metadata :: "meta list option"

datatype 'a write_outcome = Written | WriteFails string "'a option"

record io =
  io_write_index :: "flat_index write_outcome"
  io_dump :: "meta list write_outcome"

text \<open>\<^verbatim>\<open>_save_index\<close>, lines 160--167: both writes are inside one \<^verbatim>\<open>try\<close> whose handler
  logs the error and returns; the second write is skipped when the first raises.
  Writing an index that is \<^verbatim>\<open>None\<close> raises inside the library.\<close>

definition save_index :: "FAISSIndex \<Rightarrow> io \<Rightarrow> disk \<Rightarrow> disk" where
  "save_index fx env dk =
     (case fx_index fx of
        None \<Rightarrow> dk
      | Some ix \<Rightarrow>
          (case io_write_index env of
             WriteFails msg left \<Rightarrow> dk\<lparr>disk_index := left\<rparr>
           | Written \<Rightarrow>
               (case io_dump env of
                  WriteFails msg left \<Rightarrow> dk\<lparr>disk_index := Some ix, disk_metadata := left\<rparr>
                | Written \<Rightarrow>
                    dk\<lparr>disk_index := Some ix, disk_metadata := Some (fx_metadata fx)\<rparr>)))"

text \<open>Line 58: the list of the embeddings; the first unit without one raises.\<close>

fun embeddings_of :: "in_chunk list \<Rightarrow> py_error + embedding list" where
  "embeddings_of [] = Inr []"
| "embeddings_of (c # cs) =
     (case in_embedding c of
        None \<Rightarrow> Inl (KeyError ''embedding'')
      | Some e \<Rightarrow> (case embeddings_of cs of Inl err \<Rightarrow> Inl err | Inr es \<Rightarrow> Inr (e # es)))"

text \<open>Lines 58--64: the array of the embeddings is built, normalised and added to the
  library index. Rows of unequal length give no matrix; \<^verbatim>\<open>faiss.normalize_L2\<close> takes an
  array of 32-bit floats and raises \<^verbatim>\<open>TypeError\<close> on any other, before anything is
  added; an index that is \<^verbatim>\<open>None\<close> has no \<^verbatim>\<open>add\<close>; the library rejects rows whose length is
  not its dimension.\<close>

definition index_add :: "flat_index option \<Rightarrow> embedding list \<Rightarrow> py_error + flat_index" where
  "index_add index embeddings =
     (if \<exists>e \<in> set embeddings. length (components e) \<noteq> length (components (hd embeddings))
      then Inl (ValueError ''inhomogeneous shape'')
      else if \<exists>e \<in> set embeddings. \<not> is_float32 e
      then Inl (TypeError ''in method fvec_renorm_L2, argument 3 of type float *'')
      else case index of
             None \<Rightarrow> Inl AttributeError
           | Some ix \<Rightarrow>
               if length (components (hd embeddings)) \<noteq> fi_d ix then Inl AssertionError
               else Inr (ix\<lparr>fi_ntotal := fi_ntotal ix + length embeddings\<rparr>))"

text \<open>Lines 66--74: the metadata of each unit is appended in turn; a missing key raises
  with the entries of the earlier units already in the list.\<close>

fun append_metadata :: "meta list \<Rightarrow> in_chunk list \<Rightarrow> (py_error + unit) \<times> meta list" where
  "append_metadata md [] = (Inr (), md)"
| "append_metadata md (c # cs) =
     (case in_chunk_id c of
        None \<Rightarrow> (Inl (KeyError ''chunk_id''), md)
      | Some cid \<Rightarrow>
          (case in_text c of
             None \<Rightarrow> (Inl (KeyError ''text''), md)
           | Some txt \<Rightarrow>
               (case in_location c of
                  None \<Rightarrow> (Inl (KeyError ''location''), md)
                | Some loc \<Rightarrow>
                    append_metadata
                      (md @ [\<lparr>meta_chunk_id = cid, meta_text = txt,
                              meta_document_id = in_document_id c, meta_location = loc,
                              meta_headings = (case in_headings c of None \<Rightarrow> [] | Some h \<Rightarrow> h)\<rparr>])
                      cs)))"

text \<open>\<^verbatim>\<open>add_chunks\<close>, lines 51--83. The handler logs and re-raises, so an exception of
  the body is the result; the index object and the disk are returned as they are then.\<close>

definition add_chunks ::
  "FAISSIndex \<Rightarrow> in_chunk list \<Rightarrow> io \<Rightarrow> disk \<Rightarrow> (py_error + unit) \<times> FAISSIndex \<times> disk" where
  "add_chunks fx chunks env dk =
     (if chunks = [] then (Inr (), fx, dk)
      else case embeddings_of chunks of
             Inl e \<Rightarrow> (Inl e, fx, dk)
           | Inr embeddings \<Rightarrow>
               (case index_add (fx_index fx) embeddings of
                  Inl e \<Rightarrow> (Inl e, fx, dk)
                | Inr ix \<Rightarrow>
                    (case append_metadata (fx_metadata fx) chunks of
                       (Inl e, md) \<Rightarrow> (Inl e, \<lparr>fx_index = Some ix, fx_metadata = md\<rparr>, dk)
                     | (Inr u, md) \<Rightarrow>
                         (let fx' = \<lparr>fx_index = Some ix, fx_metadata = md\<rparr>
                          in (Inr (), fx', save_index fx' env dk)))))"

text \<open>What the specification says of an insertion, in its own terms. A unit is accepted
  by an index when it has an identifier, a text, a location and a vector of 32-bit
  floats of the dimension of the index; its metadata entry keeps identifier, text,
  document, location and headings (none when absent).\<close>

definition has_keys :: "in_chunk \<Rightarrow> bool" where
  "has_keys c = (in_chunk_id c \<noteq> None \<and> in_text c \<noteq> None \<and> in_location c \<noteq> None)"

definition accepted :: "flat_index \<Rightarrow> in_chunk \<Rightarrow> bool" where
  "accepted ix c =
     (in_chunk_id c \<noteq> None \<and> in_text c \<noteq> None \<and> in_location c \<noteq> None
      \<and> (case in_embedding c of
            Some (Float32Array vs) \<Rightarrow> length vs = fi_d ix
          | Some (PythonFloats vs) \<Rightarrow> False
          | None \<Rightarrow> False))"

definition meta_of :: "in_chunk \<Rightarrow> meta" where
  "meta_of c =
     \<lparr>meta_chunk_id = the (in_chunk_id c), meta_text = the (in_text c),
      meta_document_id = in_document_id c, meta_location = the (in_location c),
      meta_headings = (case in_headings c of None \<Rightarrow> [] | Some h \<Rightarrow> h)\<rparr>"

section \<open>Strings (the operations of Python that the chunker uses)\<close>

text \<open>
  A string is a list of characters with code points below 256. White space is what
  \<^verbatim>\<open>str.isspace\<close> accepts there, which is also what \<^verbatim>\<open>\s\<close> matches: tab, line feed,
  vertical tab, form feed, carriage return, the separators 28 to 31, space, 133, 160.
\<close>

definition is_space :: "char \<Rightarrow> bool" where
  "is_space c = ((of_char c :: nat) \<in> {9, 10, 11, 12, 13, 28, 29, 30, 31, 32, 133, 160})"

definition is_upper :: "char \<Rightarrow> bool" where
  "is_upper c = (65 \<le> (of_char c :: nat) \<and> (of_char c :: nat) \<le> 90)"

definition is_lower :: "char \<Rightarrow> bool" where
  "is_lower c = (97 \<le> (of_char c :: nat) \<and> (of_char c :: nat) \<le> 122)"

definition newline :: char where
  "newline = CHR 0x0A"

definition strip :: "string \<Rightarrow> string" where
  "strip s = rev (dropWhile is_space (rev (dropWhile is_space s)))"

text \<open>\<^verbatim>\<open>text.split('\n')\<close>, with the piece being read as accumulator.\<close>

fun split_lines :: "string \<Rightarrow> string \<Rightarrow> string list" where
  "split_lines acc [] = [acc]"
| "split_lines acc (c # cs) =
     (if c = newline then acc # split_lines [] cs else split_lines (acc @ [c]) cs)"

text \<open>\<^verbatim>\<open>text.split('\n\n')\<close>: the separator is searched from the left, without overlap.\<close>

fun split_paragraphs :: "string \<Rightarrow> string \<Rightarrow> string list" where
  "split_paragraphs acc [] = [acc]"
| "split_paragraphs acc [c] = [acc @ [c]]"
| "split_paragraphs acc (c # d # cs) =
     (if c = newline \<and> d = newline then acc # split_paragraphs [] cs
      else split_paragraphs (acc @ [c]) (d # cs))"

text \<open>\<^verbatim>\<open>re.split(r'[.!?]+', s)\<close>: the pieces between the maximal runs of the three
  delimiters; the flag says that the character before was a delimiter.\<close>

definition is_delimiter :: "char \<Rightarrow> bool" where
  "is_delimiter c = (c = CHR ''.'' \<or> c = CHR ''!'' \<or> c = CHR ''?'')"

fun split_sentences :: "bool \<Rightarrow> string \<Rightarrow> string \<Rightarrow> string list" where
  "split_sentences in_run acc [] = [acc]"
| "split_sentences in_run acc (c # cs) =
     (if is_delimiter c
      then (if in_run then split_sentences True acc cs else acc # split_sentences True [] cs)
      else split_sentences False (acc @ [c]) cs)"

text \<open>\<^verbatim>\<open>sep.join(parts)\<close>.\<close>

fun join :: "string \<Rightarrow> string list \<Rightarrow> string" where
  "join sep [] = []"
| "join sep [x] = x"
| "join sep (x # y # ys) = x @ sep @ join sep (y # ys)"

text \<open>\<^verbatim>\<open>str(n)\<close> for an integer.\<close>

function str_nat :: "nat \<Rightarrow> string" where
  "str_nat n =
     (if n < 10 then [char_of (48 + n)]
      else str_nat (n div 10) @ [char_of (48 + n mod 10)])"
  by pat_completeness auto
termination
  by (relation "measure (\<lambda>n. n)") auto

declare str_nat.simps [simp del]

definition str_int :: "int \<Rightarrow> string" where
  "str_int i = (if i < 0 then CHR ''-'' # str_nat (nat (- i)) else str_nat (nat i))"

text \<open>The slice \<^verbatim>\<open>xs[a:b]\<close> for \<^verbatim>\<open>a >= 0\<close>, and the slice \<^verbatim>\<open>xs[-n:]\<close>; a negative bound
  counts from the end, and \<^verbatim>\<open>-0\<close> is \<^verbatim>\<open>0\<close>, so that \<^verbatim>\<open>xs[-0:]\<close> is the whole list.\<close>

definition py_slice :: "'a list \<Rightarrow> nat \<Rightarrow> int \<Rightarrow> 'a list" where
  "py_slice xs a b =
     (let stop = (if b < 0 then nat (int (length xs) + b) else nat b)
      in take (stop - a) (drop a xs))"

definition py_last :: "int \<Rightarrow> 'a list \<Rightarrow> 'a list" where
  "py_last n xs =
     (if n > 0 then drop (length xs - nat n) xs else drop (nat (- n)) xs)"

text \<open>\<^verbatim>\<open>range(0, stop, step)\<close> for a step that is not zero.\<close>

definition py_range :: "nat \<Rightarrow> int \<Rightarrow> nat list" where
  "py_range stop step =
     (if step > 0
      then map (\<lambda>k. k * nat step) [0 ..< (stop + nat step - 1) div nat step]
      else [])"

section \<open>Heading patterns (services/chunking.py, lines 93--98)\<close>

text \<open>
  Each pattern is matched with \<^verbatim>\<open>re.match\<close> against a stripped line, which holds no line
  feed. In every pattern each repetition is followed by something it cannot match
  itself, so the only way to match is with the longest runs.
\<close>

text \<open>\<^verbatim>\<open>^#{1,6}\s+(.+)$\<close>: one to six hash marks, white space, at least one more
  character.\<close>

definition markdown_heading :: "string \<Rightarrow> bool" where
  "markdown_heading s =
     (let k = length (takeWhile (\<lambda>c. c = CHR ''#'') s); r = drop k s
      in 1 \<le> k \<and> k \<le> 6 \<and> 2 \<le> length r \<and> is_space (hd r) \<and> newline \<notin> set (tl r))"

text \<open>\<^verbatim>\<open>^[A-Z][A-Z\s]{2,}$\<close>: a capital, then two or more capitals or white space.\<close>

definition caps_heading :: "string \<Rightarrow> bool" where
  "caps_heading s =
     (case s of
        [] \<Rightarrow> False
      | c # r \<Rightarrow> is_upper c \<and> 2 \<le> length r \<and> list_all (\<lambda>x. is_upper x \<or> is_space x) r)"

text \<open>\<^verbatim>\<open>^\d+\.\s+[A-Z][^.]*$\<close>: digits, a full stop, white space, a capital, then no full
  stop up to the end.\<close>

definition numbered_heading :: "string \<Rightarrow> bool" where
  "numbered_heading s =
     (takeWhile is_digit s \<noteq> [] \<and>
      (case dropWhile is_digit s of
         [] \<Rightarrow> False
       | p # r \<Rightarrow>
           p = CHR ''.'' \<and> takeWhile is_space r \<noteq> [] \<and>
           (case dropWhile is_space r of
              [] \<Rightarrow> False
            | c # t \<Rightarrow> is_upper c \<and> CHR ''.'' \<notin> set t)))"

text \<open>\<^verbatim>\<open>^[A-Z][a-z]+(?:\s+[A-Z][a-z]+)*\s*$\<close>: words of a capital and one or more small
  letters, separated by white space, with optional white space at the end.\<close>

function title_heading :: "string \<Rightarrow> bool" where
  "title_heading [] = False"
| "title_heading (c # r) =
     (is_upper c \<and> takeWhile is_lower r \<noteq> [] \<and>
      (let r1 = dropWhile is_lower r
       in r1 = [] \<or>
          (takeWhile is_space r1 \<noteq> [] \<and>
           (let r2 = dropWhile is_space r1 in r2 = [] \<or> title_heading r2))))"
  by pat_completeness auto
termination
proof (relation "measure length")
  show "wf (measure length)" by simp
next
  fix c :: char and r r1 r2 :: string
  assume "r1 = dropWhile is_lower r" "r2 = dropWhile is_space r1"
  then have "length r2 \<le> length r"
    using length_dropWhile_le [of is_space r1] length_dropWhile_le [of is_lower r] by simp
  then show "(r2, c # r) \<in> measure length" by simp
qed

definition is_heading :: "string \<Rightarrow> bool" where
  "is_heading s =
     (markdown_heading s \<or> caps_heading s \<or> numbered_heading s \<or> title_heading s)"

section \<open>Semantic chunker (services/chunking.py)\<close>

text \<open>
  The tokenizer is the \<^verbatim>\<open>tiktoken\<close> encoding, a library: the chunker is modelled for any
  pair of an encoder, which may raise (as \<^verbatim>\<open>tiktoken\<close> does on a text that holds a
  special token), and a decoder. The two settings are integers that nothing validates.
  A page of \<^verbatim>\<open>page_content\<close> has an optional number; its text is \<open>None\<close> when the value
  under \<^verbatim>\<open>'text'\<close> is not a string, so that \<^verbatim>\<open>page_text.strip()\<close> raises.
\<close>

record chunker =
  tok_encode :: "string \<Rightarrow> py_error + nat list"
  tok_decode :: "nat list \<Rightarrow> string"
  chunk_size :: int
  chunk_overlap :: int

record chunk =
  ch_chunk_id :: string
  ch_text :: string
  ch_location :: location
  ch_headings :: "string list"
  ch_token_count :: nat

record page =
  pg_page :: "int option"
  pg_text :: "string option"
  pg_type :: string

record chunk_metadata =
  md_document_id :: "int option"
  md_page_content :: "page list"

record text_section =
  sec_text :: string
  sec_headings :: "string list"

text \<open>\<^verbatim>\<open>_split_by_headings\<close>, lines 88--127: the loop over the lines, with the current
  section and the list of finished sections.\<close>

definition flush_section :: "text_section list \<Rightarrow> text_section \<Rightarrow> text_section list" where
  "flush_section sections current =
     (if strip (sec_text current) \<noteq> [] then sections @ [current] else sections)"

fun heading_loop :: "string list \<Rightarrow> text_section \<Rightarrow> text_section list \<Rightarrow> text_section list" where
  "heading_loop [] current sections = flush_section sections current"
| "heading_loop (line # rest) current sections =
     (if is_heading (strip line)
      then heading_loop rest \<lparr>sec_text = line @ [newline], sec_headings = [strip line]\<rparr>
             (flush_section sections current)
      else heading_loop rest (current\<lparr>sec_text := sec_text current @ line @ [newline]\<rparr>)
             sections)"

definition split_by_headings :: "string \<Rightarrow> text_section list" where
  "split_by_headings text =
     heading_loop (split_lines [] text) \<lparr>sec_text = [], sec_headings = []\<rparr> []"

text \<open>\<^verbatim>\<open>_split_large_section\<close>, lines 129--155: the loop over the paragraphs, with
  \<^verbatim>\<open>current_chunk\<close> and \<^verbatim>\<open>chunks\<close>.\<close>

fun paragraph_loop ::
  "chunker \<Rightarrow> string list \<Rightarrow> string \<Rightarrow> string list \<Rightarrow> py_error + string list" where
  "paragraph_loop ck [] current_chunk chunks =
     Inr (if strip current_chunk \<noteq> [] then chunks @ [strip current_chunk] else chunks)"
| "paragraph_loop ck (paragraph # rest) current_chunk chunks =
     (if strip paragraph = [] then paragraph_loop ck rest current_chunk chunks
      else (let test_chunk =
                  (if current_chunk \<noteq> [] then current_chunk @ [newline, newline] @ paragraph
                   else paragraph)
            in case tok_encode ck test_chunk of
                 Inl e \<Rightarrow> Inl e
               | Inr toks \<Rightarrow>
                   if int (length toks) > chunk_size ck \<and> current_chunk \<noteq> []
                   then paragraph_loop ck rest paragraph (chunks @ [strip current_chunk])
                   else paragraph_loop ck rest test_chunk chunks))"

definition split_large_section :: "chunker \<Rightarrow> string \<Rightarrow> py_error + string list" where
  "split_large_section ck text = paragraph_loop ck (split_paragraphs [] text) [] []"

text \<open>\<^verbatim>\<open>_create_chunk_data\<close>, lines 157--175. In the id, \<^verbatim>\<open>page_num or 1\<close> is 1 for
  \<^verbatim>\<open>None\<close> and for 0.\<close>

definition create_chunk_data ::
  "chunker \<Rightarrow> string \<Rightarrow> chunk_metadata \<Rightarrow> int option \<Rightarrow> string \<Rightarrow> string list \<Rightarrow> string
     \<Rightarrow> py_error + chunk" where
  "create_chunk_data ck text md page_num page_type headings section_id =
     (case tok_encode ck text of
        Inl e \<Rightarrow> Inl e
      | Inr toks \<Rightarrow>
          Inr \<lparr>ch_chunk_id =
                 ''chunk_'' @ (case md_document_id md of None \<Rightarrow> ''unknown'' | Some d \<Rightarrow> str_int d)
                 @ ''_'' @ str_int (case page_num of None \<Rightarrow> 1 | Some n \<Rightarrow> if n = 0 then 1 else n)
                 @ ''_'' @ section_id,
               ch_text = text,
               ch_location = \<lparr>loc_page = page_num, loc_type = page_type, loc_section = section_id\<rparr>,
               ch_headings = headings,
               ch_token_count = length toks\<rparr>)"

text \<open>Lines 72--77: the units of the pieces of a large section, numbered from 0.\<close>

fun sub_chunk_loop ::
  "chunker \<Rightarrow> chunk_metadata \<Rightarrow> int option \<Rightarrow> string \<Rightarrow> string list \<Rightarrow> nat \<Rightarrow> nat \<Rightarrow> string list
     \<Rightarrow> py_error + chunk list" where
  "sub_chunk_loop ck md page_num page_type headings i j [] = Inr []"
| "sub_chunk_loop ck md page_num page_type headings i j (sub_chunk # rest) =
     (case create_chunk_data ck sub_chunk md page_num page_type headings
             (str_nat i @ ''_'' @ str_nat j) of
        Inl e \<Rightarrow> Inl e
      | Inr c \<Rightarrow>
          (case sub_chunk_loop ck md page_num page_type headings i (Suc j) rest of
             Inl e \<Rightarrow> Inl e
           | Inr cs \<Rightarrow> Inr (c # cs)))"

text \<open>Lines 65--83: the loop over the sections, numbered from 0, before the overlap.\<close>

fun section_loop ::
  "chunker \<Rightarrow> chunk_metadata \<Rightarrow> int option \<Rightarrow> string \<Rightarrow> nat \<Rightarrow> text_section list \<Rightarrow> chunk list
     \<Rightarrow> py_error + chunk list" where
  "section_loop ck md page_num page_type i [] chunks = Inr chunks"
| "section_loop ck md page_num page_type i (sec # rest) chunks =
     (if strip (sec_text sec) = [] then section_loop ck md page_num page_type (Suc i) rest chunks
      else case tok_encode ck (sec_text sec) of
             Inl e \<Rightarrow> Inl e
           | Inr toks \<Rightarrow>
               if int (length toks) > chunk_size ck
               then (case split_large_section ck (sec_text sec) of
                       Inl e \<Rightarrow> Inl e
                     | Inr sub_chunks \<Rightarrow>
                         (case sub_chunk_loop ck md page_num page_type (sec_headings sec) i 0
                                 sub_chunks of
                            Inl e \<Rightarrow> Inl e
                          | Inr cs \<Rightarrow>
                              section_loop ck md page_num page_type (Suc i) rest (chunks @ cs)))
               else (case create_chunk_data ck (sec_text sec) md page_num page_type
                            (sec_headings sec) (str_nat i) of
                       Inl e \<Rightarrow> Inl e
                     | Inr c \<Rightarrow>
                         section_loop ck md page_num page_type (Suc i) rest (chunks @ [c])))"

definition section_chunks ::
  "chunker \<Rightarrow> string \<Rightarrow> chunk_metadata \<Rightarrow> int option \<Rightarrow> string \<Rightarrow> py_error + chunk list" where
  "section_chunks ck text md page_num page_type =
     section_loop ck md page_num page_type 0 (split_by_headings text) []"

text \<open>\<^verbatim>\<open>_get_overlap_text\<close>, lines 198--215.\<close>

definition get_overlap_text :: "chunker \<Rightarrow> string \<Rightarrow> int \<Rightarrow> py_error + string" where
  "get_overlap_text ck text overlap_tokens =
     (case tok_encode ck text of
        Inl e \<Rightarrow> Inl e
      | Inr tokens \<Rightarrow>
          if int (length tokens) \<le> overlap_tokens then Inr text
          else (let overlap_text = tok_decode ck (py_last overlap_tokens tokens);
                    sentences = split_sentences False [] overlap_text
                in if length sentences > 1
                   then Inr (join ''. '' (butlast sentences) @ ''.'')
                   else Inr overlap_text))"

text \<open>\<^verbatim>\<open>_apply_overlap\<close>, lines 177--196. The units are dictionaries that the loop changes
  in place: the unit at position \<open>i\<close> of \<^verbatim>\<open>chunks\<close> is replaced by the stitched one, so
  that the next round reads the stitched text as the text of its predecessor. The
  function over the position has the list \<^verbatim>\<open>chunks\<close> and the list \<^verbatim>\<open>overlapped_chunks\<close>.\<close>

function overlap_loop ::
  "chunker \<Rightarrow> nat \<Rightarrow> chunk list \<Rightarrow> chunk list \<Rightarrow> py_error + chunk list" where
  "overlap_loop ck i chunks overlapped_chunks =
     (if i \<ge> length chunks then Inr overlapped_chunks
      else if i > 0
      then (case get_overlap_text ck (ch_text (chunks ! (i - 1))) (chunk_overlap ck) of
              Inl e \<Rightarrow> Inl e
            | Inr overlap_text \<Rightarrow>
                if overlap_text \<noteq> []
                then (case tok_encode ck (overlap_text @ [newline, newline] @ ch_text (chunks ! i)) of
                        Inl e \<Rightarrow> Inl e
                      | Inr toks \<Rightarrow>
                          (let c = (chunks ! i)
                                 \<lparr>ch_text := overlap_text @ [newline, newline] @ ch_text (chunks ! i),
                                  ch_token_count := length toks\<rparr>
                           in overlap_loop ck (Suc i) (chunks[i := c]) (overlapped_chunks @ [c])))
                else overlap_loop ck (Suc i) chunks (overlapped_chunks @ [chunks ! i]))
      else overlap_loop ck (Suc i) chunks (overlapped_chunks @ [chunks ! i]))"
  by pat_completeness auto
termination
  by (relation "measure (\<lambda>(ck, i, chunks, overlapped_chunks). length chunks - i)") auto

definition apply_overlap :: "chunker \<Rightarrow> chunk list \<Rightarrow> py_error + chunk list" where
  "apply_overlap ck chunks =
     (if length chunks \<le> 1 then Inr chunks else overlap_loop ck 0 chunks [])"

text \<open>\<^verbatim>\<open>_chunk_by_semantic_boundaries\<close>, lines 56--86.\<close>

definition chunk_by_semantic_boundaries ::
  "chunker \<Rightarrow> string \<Rightarrow> chunk_metadata \<Rightarrow> int option \<Rightarrow> string \<Rightarrow> py_error + chunk list" where
  "chunk_by_semantic_boundaries ck text md page_num page_type =
     (case section_chunks ck text md page_num page_type of
        Inl e \<Rightarrow> Inl e
      | Inr chunks \<Rightarrow> apply_overlap ck chunks)"

text \<open>\<^verbatim>\<open>_chunk_by_pages\<close>, lines 32--54. A page without the key \<^verbatim>\<open>'page'\<close> has number 1.\<close>

fun chunk_by_pages :: "chunker \<Rightarrow> page list \<Rightarrow> chunk_metadata \<Rightarrow> chunk list \<Rightarrow> py_error + chunk list" where
  "chunk_by_pages ck [] md chunks = Inr chunks"
| "chunk_by_pages ck (page_data # rest) md chunks =
     (case pg_text page_data of
        None \<Rightarrow> Inl AttributeError
      | Some page_text \<Rightarrow>
          if strip page_text = [] then chunk_by_pages ck rest md chunks
          else (case chunk_by_semantic_boundaries ck page_text md
                       (Some (case pg_page page_data of None \<Rightarrow> 1 | Some n \<Rightarrow> n))
                       (pg_type page_data) of
                  Inl e \<Rightarrow> Inl e
                | Inr page_chunks \<Rightarrow> chunk_by_pages ck rest md (chunks @ page_chunks)))"

text \<open>\<^verbatim>\<open>_simple_chunk\<close>, lines 217--236: one unit for each start of
  \<^verbatim>\<open>range(0, len(tokens), chunk_size - chunk_overlap)\<close>; a step of zero raises, and so
  does the division in the id when \<^verbatim>\<open>chunk_size\<close> is zero.\<close>

fun simple_loop :: "chunker \<Rightarrow> chunk_metadata \<Rightarrow> nat list \<Rightarrow> nat list \<Rightarrow> py_error + chunk list" where
  "simple_loop ck md tokens [] = Inr []"
| "simple_loop ck md tokens (i # rest) =
     (if chunk_size ck = 0 then Inl ZeroDivisionError
      else (let chunk_tokens = py_slice tokens i (int i + chunk_size ck);
                section_id = str_int (int i div chunk_size ck);
                c = \<lparr>ch_chunk_id =
                       ''simple_chunk_''
                       @ (case md_document_id md of None \<Rightarrow> ''unknown'' | Some d \<Rightarrow> str_int d)
                       @ ''_'' @ section_id,
                     ch_text = tok_decode ck chunk_tokens,
                     ch_location = \<lparr>loc_page = Some 1, loc_type = ''text'',
                                    loc_section = section_id\<rparr>,
                     ch_headings = [],
                     ch_token_count = length chunk_tokens\<rparr>
            in case simple_loop ck md tokens rest of
                 Inl e \<Rightarrow> Inl e
               | Inr cs \<Rightarrow> Inr (c # cs)))"

definition simple_chunk :: "chunker \<Rightarrow> string \<Rightarrow> chunk_metadata \<Rightarrow> py_error + chunk list" where
  "simple_chunk ck text md =
     (case tok_encode ck text of
        Inl e \<Rightarrow> Inl e
      | Inr tokens \<Rightarrow>
          if chunk_size ck - chunk_overlap ck = 0
          then Inl (ValueError ''range() arg 3 must not be zero'')
          else simple_loop ck md tokens
                 (py_range (length tokens) (chunk_size ck - chunk_overlap ck)))"

text \<open>\<^verbatim>\<open>chunk_text\<close>, lines 16--30: the semantic path inside the \<^verbatim>\<open>try\<close>, and the
  fallback in the handler, outside of any \<^verbatim>\<open>try\<close>.\<close>

definition semantic_chunks :: "chunker \<Rightarrow> string \<Rightarrow> chunk_metadata \<Rightarrow> py_error + chunk list" where
  "semantic_chunks ck text md =
     (if md_page_content md \<noteq> [] then chunk_by_pages ck (md_page_content md) md []
      else chunk_by_semantic_boundaries ck text md None ''text'')"

definition chunk_text :: "chunker \<Rightarrow> string \<Rightarrow> chunk_metadata \<Rightarrow> py_error + chunk list" where
  "chunk_text ck text md =
     (case semantic_chunks ck text md of
        Inl e \<Rightarrow> simple_chunk ck text md
      | Inr chunks \<Rightarrow> Inr chunks)"

section \<open>Predicates for the properties of the chunker\<close>

text \<open>A buffer fits when the tokenizer encodes it to at most \<^verbatim>\<open>chunk_size\<close> tokens; a unit
  has an exact count when its \<^verbatim>\<open>token_count\<close> is the number of tokens of its text.\<close>

definition fits :: "chunker \<Rightarrow> string \<Rightarrow> bool" where
  "fits ck buf = (case tok_encode ck buf of Inl e \<Rightarrow> False | Inr toks \<Rightarrow> int (length toks) \<le> chunk_size ck)"

definition exact_count :: "chunker \<Rightarrow> chunk \<Rightarrow> bool" where
  "exact_count ck c = (case tok_encode ck (ch_text c) of Inl e \<Rightarrow> False | Inr toks \<Rightarrow> ch_token_count c = length toks)"

text \<open>The paragraphs of a text: the pieces, between blank lines, of its sections.\<close>

definition paragraphs_of :: "string \<Rightarrow> string set" where
  "paragraphs_of text = (\<Union>s \<in> set (split_by_headings text). set (split_paragraphs [] (sec_text s)))"

text \<open>A unit is within the budget, or it is the stripped form of a buffer that is one
  paragraph or that fits.\<close>

definition unit_ok :: "chunker \<Rightarrow> string set \<Rightarrow> chunk \<Rightarrow> bool" where
  "unit_ok ck paragraphs c =
     (exact_count ck c \<and>
      (int (ch_token_count c) \<le> chunk_size ck
       \<or> (\<exists>buf. ch_text c = strip buf \<and> (buf \<in> paragraphs \<or> fits ck buf))))"

text \<open>What one round of the overlap loop makes of a unit, for a given overlap text.\<close>

definition stitched :: "chunker \<Rightarrow> string \<Rightarrow> chunk \<Rightarrow> chunk \<Rightarrow> bool" where
  "stitched ck overlap_text c c' =
     (if overlap_text = [] then c' = c
      else (case tok_encode ck (overlap_text @ [newline, newline] @ ch_text c) of
              Inl e \<Rightarrow> False
            | Inr toks \<Rightarrow>
                c' = c\<lparr>ch_text := overlap_text @ [newline, newline] @ ch_text c,
                       ch_token_count := length toks\<rparr>))"



section \<open>Sample data\<close>

text \<open>A database on which every operation succeeds, and one on which the commit of the
  handler raises, as it does on a session that a failed flush of the pipeline has left
  without a usable transaction.\<close>

definition db_ok :: db where
  "db_ok = \<lparr>get_running_raises = None, commit_running_raises = None,
            get_completed_raises = None, commit_completed_raises = None,
            get_failed_raises = None, commit_failed_raises = None\<rparr>"


definition loc0 :: location where
  "loc0 = \<lparr>loc_page = Some 1, loc_type = ''text'', loc_section = ''0''\<rparr>"

definition meta_a :: meta where
  "meta_a = \<lparr>meta_chunk_id = ''chunk_1_1_0'', meta_text = ''alpha'', meta_document_id = Some 1,
             meta_location = loc0, meta_headings = []\<rparr>"

definition meta_b :: meta where
  "meta_b = \<lparr>meta_chunk_id = ''chunk_1_1_1'', meta_text = ''beta'', meta_document_id = Some 1,
             meta_location = loc0, meta_headings = []\<rparr>"

definition meta_c :: meta where
  "meta_c = \<lparr>meta_chunk_id = ''chunk_2_1_0'', meta_text = ''gamma'', meta_document_id = Some 2,
             meta_location = loc0, meta_headings = []\<rparr>"

text \<open>A collection of one unit and one of three units (two of document 1).\<close>

definition fx_one :: FAISSIndex where
  "fx_one = \<lparr>fx_index = Some \<lparr>fi_d = 2, fi_ntotal = 1\<rparr>, fx_metadata = [meta_a]\<rparr>"

definition fx_three :: FAISSIndex where
  "fx_three = \<lparr>fx_index = Some \<lparr>fi_d = 2, fi_ntotal = 3\<rparr>,
               fx_metadata = [meta_a, meta_b, meta_c]\<rparr>"

definition fx_empty :: FAISSIndex where
  "fx_empty = \<lparr>fx_index = Some \<lparr>fi_d = 2, fi_ntotal = 0\<rparr>, fx_metadata = []\<rparr>"

text \<open>Library searches: one that returns the first \<open>k\<close> of three neighbours by
  descending score, one that returns the single neighbour, one that raises.\<close>

definition knn_three :: knn_search where
  "knn_three q k = Inr (take (nat k) [(9 / 10, 0), (8 / 10, 1), (7 / 10, 2)])"

definition knn_one :: knn_search where
  "knn_one q k = Inr (take (nat k) [(5 / 10, 0)])"

definition knn_raises :: knn_search where
  "knn_raises q k = Inl (ValueError ''bad query'')"

text \<open>Remote searches: one returns another unit of document 1 with a higher score,
  one returns nothing.\<close>

definition remote_hit :: hit where
  "remote_hit = \<lparr>hit_chunk_id = ''chunk_1_1_1'', hit_score = 9 / 10, hit_text = ''beta'',
                 hit_document_id = Some 1, hit_location = loc0, hit_headings = []\<rparr>"

definition qdrant_one :: qdrant_search where
  "qdrant_one limit = Inr (take (nat limit) [remote_hit])"

definition qdrant_none :: qdrant_search where
  "qdrant_none limit = Inr []"

definition unit_new :: in_chunk where
  "unit_new = \<lparr>in_chunk_id = Some ''chunk_2_1_0'', in_text = Some ''gamma'',
               in_embedding = Some (Float32Array [1, 0]), in_document_id = Some 2,
               in_location = Some loc0, in_headings = None\<rparr>"

text \<open>The same unit as the embedder hands it over, with its vector as a list of Python
  floats.\<close>

definition unit_embedded :: in_chunk where
  "unit_embedded = unit_new\<lparr>in_embedding := Some (PythonFloats [1, 0])\<rparr>"

definition disk_one :: disk where
  "disk_one = \<lparr>disk_index = Some \<lparr>fi_d = 2, fi_ntotal = 1\<rparr>, disk_metadata = Some [meta_a]\<rparr>"

definition io_ok :: io where
  "io_ok = \<lparr>io_write_index = Written, io_dump = Written\<rparr>"

definition io_disk_full :: io where
  "io_disk_full = \<lparr>io_write_index = WriteFails ''No space left on device''
                      (Some \<lparr>fi_d = 2, fi_ntotal = 1\<rparr>),
                   io_dump = Written\<rparr>"

text \<open>A tokenizer with one token for each character, which rejects a text that holds
  the special token \<^verbatim>\<open><|endoftext|>\<close> as the library does; chunkers with small budgets.\<close>

definition special_token :: string where
  "special_token = ''<|endoftext|>''"

fun contains :: "string \<Rightarrow> string \<Rightarrow> bool" where
  "contains sub [] = (sub = [])"
| "contains sub (c # cs) = (prefix sub (c # cs) \<or> contains sub cs)"

definition char_encode :: "string \<Rightarrow> py_error + nat list" where
  "char_encode s =
     (if contains special_token s then Inl (ValueError ''disallowed special token'')
      else Inr (map of_char s))"

definition char_decode :: "nat list \<Rightarrow> string" where
  "char_decode toks = map char_of toks"

definition ck_small :: chunker where
  "ck_small = \<lparr>tok_encode = char_encode, tok_decode = char_decode,
               chunk_size = 5, chunk_overlap = 2\<rparr>"

definition ck_default :: chunker where
  "ck_default = \<lparr>tok_encode = char_encode, tok_decode = char_decode,
                 chunk_size = 800, chunk_overlap = 150\<rparr>"

definition ck_equal :: chunker where
  "ck_equal = \<lparr>tok_encode = char_encode, tok_decode = char_decode,
               chunk_size = 3, chunk_overlap = 3\<rparr>"

definition md_plain :: chunk_metadata where
  "md_plain = \<lparr>md_document_id = Some 7, md_page_content = []\<rparr>"

definition md_bad_page :: chunk_metadata where
  "md_bad_page = \<lparr>md_document_id = Some 7,
                  md_page_content = [\<lparr>pg_page = Some 1, pg_text = None, pg_type = ''text''\<rparr>]\<rparr>"


text \<open>Units as the loop over the sections returns them for two sample texts.\<close>

definition unit_long :: chunk where
  "unit_long = \<lparr>ch_chunk_id = ''chunk_7_1_0_0'', ch_text = ''abcdefgh'',
                ch_location = \<lparr>loc_page = None, loc_type = ''text'', loc_section = ''0_0''\<rparr>,
                ch_headings = [], ch_token_count = 8\<rparr>"






section \<open>Properties of the task executor\<close>




text \<open>
  Claim C2. The claim says that a task that has reached CANCELLED keeps that status. In
  the code a task cancelled while it waits for the semaphore is set to RUNNING when the
  executor acquires its slot, and then to COMPLETED when the pipeline returns: the
  request sequence submit, cancel, execute is evaluated here. The status leaves a
  terminal value and reaches a second one.
\<close>

theorem cancelled_task_runs_and_completes:
  "status_of (snd (cancel_task ''t1'' 1 (submit_task ''t1'' ''ingest'' 0 Map.empty))) ''t1''
     = Some CANCELLED
   \<and> terminal CANCELLED
   \<and> status_of (mark_running ''t1'' 2
        (snd (cancel_task ''t1'' 1 (submit_task ''t1'' ''ingest'' 0 Map.empty)))) ''t1''
     = Some RUNNING
   \<and> \<not> terminal RUNNING
   \<and> status_of (snd (execute_task db_ok ''t1'' 2 3 [] (Returned ''ok'')
        (snd (cancel_task ''t1'' 1 (submit_task ''t1'' ''ingest'' 0 Map.empty))))) ''t1''
     = Some COMPLETED"
  by (simp add: status_of_def execute_task_def session_update_def db_ok_def mark_completed_def
      mark_running_def cancel_task_def submit_task_def terminal_def)




section \<open>Properties of citation extraction\<close>




























section \<open>Properties of the local search loop and of the merge\<close>

lemma hit_score_make_hit [simp]: "hit_score (make_hit m sc) = sc"
  and hit_document_id_make_hit [simp]: "hit_document_id (make_hit m sc) = meta_document_id m"
  by (simp_all add: make_hit_def)

lemma search_loop_step:
  assumes a: "search_loop md k f ((score, idx) # rest) results seen = Inr out"
  shows "search_loop md k f rest results seen = Inr out
       \<or> (\<exists>m. py_get md idx = Inr m \<and> \<not> filtered_out f (meta_document_id m)
              \<and> meta_document_id m \<notin> seen
              \<and> ((k \<le> int (length results) + 1 \<and> out = results @ [make_hit m score])
                 \<or> (int (length results) + 1 < k
                    \<and> search_loop md k f rest (results @ [make_hit m score])
                         (insert (meta_document_id m) seen) = Inr out)))"
proof (cases "idx \<ge> int (length md)")
  case True
  with a show ?thesis by simp
next
  case oob: False
  show ?thesis
  proof (cases "py_get md idx")
    case (Inl e)
    with a oob show ?thesis by simp
  next
    case (Inr m)
    show ?thesis
    proof (cases "filtered_out f (meta_document_id m)")
      case True
      with a oob Inr show ?thesis by simp
    next
      case nf: False
      show ?thesis
      proof (cases "meta_document_id m \<in> seen")
        case True
        with a oob Inr nf show ?thesis by simp
      next
        case ns: False
        show ?thesis
        proof (cases "k \<le> int (length results) + 1")
          case True
          with a oob Inr nf ns have "out = results @ [make_hit m score]"
            by (simp add: Let_def add.commute)
          with True Inr nf ns show ?thesis by simp
        next
          case False
          with a oob Inr nf ns
          have "search_loop md k f rest (results @ [make_hit m score])
                  (insert (meta_document_id m) seen) = Inr out"
            by (simp add: Let_def add.commute)
          with False Inr nf ns show ?thesis by simp
        qed
      qed
    qed
  qed
qed

lemma search_loop_extends:
  "search_loop md k f raw results seen = Inr out \<Longrightarrow>
     \<exists>extra. out = results @ extra \<and> subseq (map hit_score extra) (map fst raw)"
proof (induction raw arbitrary: results seen)
  case Nil
  then show ?case by simp
next
  case (Cons p rest)
  obtain score idx where p: "p = (score, idx)" by (cases p)
  from search_loop_step [OF Cons.prems [unfolded p]]
  consider (skip) "search_loop md k f rest results seen = Inr out"
    | (stop) m where "out = results @ [make_hit m score]"
    | (continue) m where "search_loop md k f rest (results @ [make_hit m score])
                         (insert (meta_document_id m) seen) = Inr out"
    by blast
  then show ?case
  proof cases
    case skip
    from Cons.IH [OF this] obtain extra where
      "out = results @ extra" "subseq (map hit_score extra) (map fst rest)" by blast
    then show ?thesis by (intro exI [of _ extra]) (auto simp: p intro: list_emb_Cons)
  next
    case (stop m)
    then show ?thesis by (intro exI [of _ "[make_hit m score]"]) (simp add: p)
  next
    case (continue m)
    from Cons.IH [OF this] obtain extra where
      "out = (results @ [make_hit m score]) @ extra" "subseq (map hit_score extra) (map fst rest)"
      by blast
    then show ?thesis by (intro exI [of _ "make_hit m score # extra"]) (simp add: p)
  qed
qed


lemma search_loop_length:
  "search_loop md k f raw results seen = Inr out \<Longrightarrow>
   int (length results) < k \<Longrightarrow> int (length out) \<le> k"
proof (induction raw arbitrary: results seen)
  case Nil
  then show ?case by simp
next
  case (Cons p rest)
  obtain score idx where p: "p = (score, idx)" by (cases p)
  from search_loop_step [OF Cons.prems(1) [unfolded p]]
  consider (skip) "search_loop md k f rest results seen = Inr out"
    | (stop) m where "out = results @ [make_hit m score]"
    | (continue) m where "int (length results) + 1 < k"
        "search_loop md k f rest (results @ [make_hit m score])
                         (insert (meta_document_id m) seen) = Inr out"
    by blast
  then show ?case
  proof cases
    case skip
    from Cons.IH [OF this Cons.prems(2)] show ?thesis .
  next
    case (stop m)
    then show ?thesis using Cons.prems(2) by simp
  next
    case (continue m)
    from continue(1) have "int (length (results @ [make_hit m score])) < k" by simp
    from Cons.IH [OF continue(2) this] show ?thesis .
  qed
qed

lemma sorted_wrt_subseq: "subseq xs ys \<Longrightarrow> sorted_wrt P ys \<Longrightarrow> sorted_wrt P xs"
proof (induction rule: list_emb.induct)
  case (list_emb_Nil ys)
  then show ?case by simp
next
  case (list_emb_Cons xs ys y)
  then show ?case by simp
next
  case (list_emb_Cons2 x y xs ys)
  then show ?case by (auto dest: list_emb_set)
qed

lemma merge_qdrant_extends:
  "\<exists>extra. merge_qdrant rs qs = rs @ extra \<and> subseq extra qs
     \<and> distinct (map hit_chunk_id extra)
     \<and> set (map hit_chunk_id extra) \<inter> set (map hit_chunk_id rs) = {}"
proof (induction qs arbitrary: rs)
  case Nil
  then show ?case by simp
next
  case (Cons q qs)
  show ?case
  proof (cases "hit_chunk_id q \<in> set (map hit_chunk_id rs)")
    case True
    from Cons [of rs] obtain extra where e: "merge_qdrant rs qs = rs @ extra"
      "subseq extra qs" "distinct (map hit_chunk_id extra)"
      "set (map hit_chunk_id extra) \<inter> set (map hit_chunk_id rs) = {}" by blast
    show ?thesis
      using True e by (intro exI [of _ extra]) (auto intro: list_emb_Cons)
  next
    case False
    from Cons [of "rs @ [q]"] obtain extra where e: "merge_qdrant (rs @ [q]) qs = (rs @ [q]) @ extra"
      "subseq extra qs" "distinct (map hit_chunk_id extra)"
      "set (map hit_chunk_id extra) \<inter> set (map hit_chunk_id (rs @ [q])) = {}" by blast
    show ?thesis
      using False e by (intro exI [of _ "q # extra"]) auto
  qed
qed

lemma faiss_search_cases:
  "faiss_search fx knn q k f = []
   \<or> (\<exists>ix raw. fx_index fx = Some ix \<and> knn q (min (k * 2) (int (fi_ntotal ix))) = Inr raw
        \<and> search_loop (fx_metadata fx) k f raw [] {} = Inr (faiss_search fx knn q k f))"
  by (auto simp: faiss_search_def search_body_def split: option.splits sum.splits)


lemma faiss_search_length: "1 \<le> k \<Longrightarrow> int (length (faiss_search fx knn q k f)) \<le> k"
  using faiss_search_cases [of fx knn q k f]
  by (auto dest: search_loop_length)

lemma faiss_search_length0:
  assumes "0 \<le> k" and "\<And>k' raw. knn q k' = Inr raw \<Longrightarrow> length raw \<le> nat k'"
  shows "int (length (faiss_search fx knn q k f)) \<le> k"
proof (cases "1 \<le> k")
  case True
  then show ?thesis by (rule faiss_search_length)
next
  case False
  with assms(1) have k: "k = 0" by simp
  from faiss_search_cases [of fx knn q k f] show ?thesis
  proof
    assume "faiss_search fx knn q k f = []"
    then show ?thesis using assms(1) by simp
  next
    assume "\<exists>ix raw. fx_index fx = Some ix \<and> knn q (min (k * 2) (int (fi_ntotal ix))) = Inr raw
        \<and> search_loop (fx_metadata fx) k f raw [] {} = Inr (faiss_search fx knn q k f)"
    then obtain ix :: flat_index and raw where
      r: "knn q (min (k * 2) (int (fi_ntotal ix))) = Inr raw"
      "search_loop (fx_metadata fx) k f raw [] {} = Inr (faiss_search fx knn q k f)" by blast
    from assms(2) [OF r(1)] k have "raw = []" by simp
    with r(2) have "faiss_search fx knn q k f = []" by simp
    then show ?thesis using assms(1) by simp
  qed
qed

lemma faiss_search_subseq:
  "faiss_search fx knn q k f = []
   \<or> (\<exists>ix raw. fx_index fx = Some ix \<and> knn q (min (k * 2) (int (fi_ntotal ix))) = Inr raw
        \<and> subseq (map hit_score (faiss_search fx knn q k f)) (map fst raw))"
  using faiss_search_cases [of fx knn q k f]
  by (auto dest: search_loop_extends)

lemma vector_search_extends:
  "\<exists>extra. vector_search uq qd fx knn q k f = faiss_search fx knn q k f @ extra
     \<and> distinct (map hit_chunk_id extra)
     \<and> set (map hit_chunk_id extra) \<inter> set (map hit_chunk_id (faiss_search fx knn q k f)) = {}
     \<and> (extra \<noteq> [] \<longrightarrow> uq \<and> (\<exists>qs. qd (k - int (length (faiss_search fx knn q k f))) = Inr qs
                                  \<and> subseq extra qs))
     \<and> (int (length (faiss_search fx knn q k f)) < k
          \<longrightarrow> int (length (vector_search uq qd fx knn q k f)) \<le> k)"
proof -
  let ?l = "faiss_search fx knn q k f"
  show ?thesis
  proof (cases "int (length ?l) \<ge> k")
    case True
    then show ?thesis by (intro exI [of _ "[]"]) (simp add: vector_search_def)
  next
    case short: False
    then have tk: "take (nat k) ?l = ?l" by simp
    show ?thesis
    proof (cases "uq \<and> (\<exists>qs. qd (k - int (length ?l)) = Inr qs)")
      case False
      then have "vector_search uq qd fx knn q k f = ?l"
        using short tk by (auto simp: vector_search_def Let_def split: sum.splits)
      then show ?thesis using short by (intro exI [of _ "[]"]) simp
    next
      case True
      then obtain qs where qs: "qd (k - int (length ?l)) = Inr qs" and uq: uq by blast
      from merge_qdrant_extends [of ?l qs] obtain extra where e:
        "merge_qdrant ?l qs = ?l @ extra" "subseq extra qs" "distinct (map hit_chunk_id extra)"
        "set (map hit_chunk_id extra) \<inter> set (map hit_chunk_id ?l) = {}" by blast
      let ?n = "nat k - length ?l"
      have vs: "vector_search uq qd fx knn q k f = ?l @ take ?n extra"
        using short uq qs e(1) by (simp add: vector_search_def Let_def)
      have s: "subseq (take ?n extra) extra"
        by (metis append_take_drop_id list_emb_append_mono subseq_order.order_refl
            list_emb_Nil append_Nil2)
      have "subseq (take ?n extra) qs"
        using s e(2) by (rule subseq_order.order_trans)
      moreover have "distinct (map hit_chunk_id (take ?n extra))"
        using e(3) by (simp add: take_map [symmetric] distinct_take del: take_map)
      moreover have "set (map hit_chunk_id (take ?n extra)) \<inter> set (map hit_chunk_id ?l) = {}"
        using e(4) by (auto dest: in_set_takeD)
      moreover have "int (length (?l @ take ?n extra)) \<le> k" using short by simp
      ultimately show ?thesis using vs uq qs
        by (intro exI [of _ "take ?n extra"]) simp
    qed
  qed
qed

section \<open>Properties of the index\<close>

lemmas sample_defs = loc0_def meta_a_def meta_b_def meta_c_def fx_one_def fx_three_def
  fx_empty_def knn_three_def knn_one_def knn_raises_def remote_hit_def qdrant_one_def
  qdrant_none_def unit_new_def unit_embedded_def disk_one_def io_ok_def io_disk_full_def

lemmas search_defs = faiss_search_def search_body_def py_get_def filtered_out_def Let_def

lemma faiss_one_eval:
  "faiss_search fx_one knn_one q 2 None = [make_hit meta_a (5 / 10)]"
  "faiss_search fx_one knn_one q 3 None = [make_hit meta_a (5 / 10)]"
  by (simp_all add: search_defs fx_one_def knn_one_def)

lemma faiss_three_eval:
  "faiss_search fx_three knn_three q 2 None = [make_hit meta_a (9 / 10), make_hit meta_c (7 / 10)]"
  by (simp add: search_defs fx_three_def knn_three_def meta_a_def meta_b_def meta_c_def)

lemma vector_one_eval:
  "vector_search True qdrant_one fx_one knn_one q 2 None = [make_hit meta_a (5 / 10), remote_hit]"
  "vector_search True qdrant_one fx_one knn_one q 3 None = [make_hit meta_a (5 / 10), remote_hit]"
  "vector_search False qdrant_one fx_one knn_one q 3 None = [make_hit meta_a (5 / 10)]"
  by (simp_all add: vector_search_def faiss_one_eval qdrant_one_def make_hit_def meta_a_def
      remote_hit_def)

lemma vector_three_eval:
  "vector_search False qdrant_none fx_three knn_three q 2 None
     = [make_hit meta_a (9 / 10), make_hit meta_c (7 / 10)]"
  by (simp add: vector_search_def faiss_three_eval)

lemma knn_three_bounded:
  "knn_three q k' = Inr raw \<Longrightarrow> length raw \<le> nat k'"
  by (auto simp: knn_three_def)

lemma knn_three_sorted:
  "knn_three q k' = Inr raw \<Longrightarrow> sorted_wrt (\<lambda>a b. a \<ge> b) (map fst raw)"
proof -
  assume "knn_three q k' = Inr raw"
  then have "raw = take (nat k') [(9 / 10, 0), (8 / 10, 1), (7 / 10, 2)]"
    by (auto simp: knn_three_def)
  then have "map fst raw = take (nat k') (map fst [(9 / 10 :: real, 0 :: int), (8 / 10, 1), (7 / 10, 2)])"
    by (simp only: take_map)
  then have "map fst raw = take (nat k') [9 / 10, 8 / 10, 7 / 10 :: real]"
    by simp
  moreover have "sorted_wrt (\<lambda>a b. a \<ge> b) [9 / 10, 8 / 10, 7 / 10 :: real]" by simp
  ultimately show ?thesis by (simp add: sorted_wrt_take)
qed

text \<open>
  Claim C10. A local search on a collection without vectors returns the empty list, and
  so does a search whose body raises, whatever the exception (a failing library call, a
  position outside the metadata, an index that is \<^verbatim>\<open>None\<close>): the result of
  \<^verbatim>\<open>FAISSIndex.search\<close> is always a list.
\<close>

theorem faiss_search_total:
  "(\<forall>ix. fx_index fx = Some ix \<and> fi_ntotal ix = 0 \<longrightarrow> faiss_search fx knn q k f = [])
   \<and> (\<forall>e. search_body fx knn q k f = Inl e \<longrightarrow> faiss_search fx knn q k f = [])"
  by (simp add: faiss_search_def search_body_def)

theorem faiss_search_total_witness:
  "fx_index fx_empty = Some \<lparr>fi_d = 2, fi_ntotal = 0\<rparr>
   \<and> faiss_search fx_empty knn_three [1, 0] 8 None = []
   \<and> search_body fx_one knn_raises [1, 0] 8 None = Inl (ValueError ''bad query'')
   \<and> faiss_search fx_one knn_raises [1, 0] 8 None = []
   \<and> search_body \<lparr>fx_index = None, fx_metadata = []\<rparr> knn_three [1, 0] 8 None = Inl AttributeError
   \<and> faiss_search \<lparr>fx_index = None, fx_metadata = []\<rparr> knn_three [1, 0] 8 None = []"
  using faiss_search_total [of fx_empty knn_three "[1, 0]" 8 None]
    faiss_search_total [of fx_one knn_raises "[1, 0]" 8 None]
    faiss_search_total [of "\<lparr>fx_index = None, fx_metadata = []\<rparr>" knn_three "[1, 0]" 8 None]
  by (simp add: search_body_def fx_empty_def fx_one_def knn_raises_def)




text \<open>
  Claim C4, as stated, fails: a remote hit is appended after the local hits whatever its
  score. With a local hit of score 0.5 and a remote hit of score 0.9 the scores of the
  result are 0.5, 0.9, which is neither strictly descending nor non-increasing.
\<close>

theorem vector_search_order_counterexample:
  "\<not> sorted_wrt (\<lambda>a b. a \<ge> b)
       (map hit_score (vector_search True qdrant_one fx_one knn_one [1, 0] 2 None))"
proof -
  have "map hit_score (vector_search True qdrant_one fx_one knn_one [1, 0] 2 None)
          = [5 / 10, 9 / 10]"
    by (simp add: vector_one_eval remote_hit_def)
  then show ?thesis
    by (simp only: sorted_wrt.simps list.set ball_simps) simp
qed

text \<open>
  Claim C4, amended. For a \<^verbatim>\<open>top_k\<close> that is not negative, and a library search that
  returns at most the number of neighbours asked for, the result has at most \<^verbatim>\<open>top_k\<close>
  hits. The local hits are non-increasing in score when the list returned by the
  library is (equal scores may occur). The result is the local hits followed by hits
  taken, in the order received, from the answer of the remote index; they are not
  sorted by score.
\<close>

theorem vector_search_length_order:
  assumes "0 \<le> k"
    and "\<And>k' raw. knn q k' = Inr raw
           \<Longrightarrow> length raw \<le> nat k' \<and> sorted_wrt (\<lambda>a b. a \<ge> b) (map fst raw)"
  shows "int (length (vector_search uq qd fx knn q k f)) \<le> k
    \<and> sorted_wrt (\<lambda>a b. a \<ge> b) (map hit_score (faiss_search fx knn q k f))
    \<and> (\<exists>extra. vector_search uq qd fx knn q k f = faiss_search fx knn q k f @ extra
         \<and> (extra \<noteq> [] \<longrightarrow> uq \<and> (\<exists>qs. qd (k - int (length (faiss_search fx knn q k f))) = Inr qs
                                      \<and> subseq extra qs)))"
proof -
  let ?l = "faiss_search fx knn q k f"
  have len: "int (length ?l) \<le> k"
    using assms by (intro faiss_search_length0) simp_all
  from vector_search_extends [of uq qd fx knn q k f] obtain extra where e:
    "vector_search uq qd fx knn q k f = ?l @ extra"
    "extra \<noteq> [] \<longrightarrow> uq \<and> (\<exists>qs. qd (k - int (length ?l)) = Inr qs \<and> subseq extra qs)"
    "int (length ?l) < k \<longrightarrow> int (length (vector_search uq qd fx knn q k f)) \<le> k"
    by blast
  have "int (length (vector_search uq qd fx knn q k f)) \<le> k"
  proof (cases "int (length ?l) < k")
    case True
    with e(3) show ?thesis by simp
  next
    case False
    then show ?thesis using len by (simp add: vector_search_def)
  qed
  moreover have "sorted_wrt (\<lambda>a b. a \<ge> b) (map hit_score ?l)"
    using faiss_search_subseq [of fx knn q k f] assms(2)
    by (auto dest: sorted_wrt_subseq)
  ultimately show ?thesis using e(1,2) by blast
qed

theorem vector_search_length_order_witness:
  "(0 :: int) \<le> 2
   \<and> knn_three [1, 0] 3 = Inr [(9 / 10, 0), (8 / 10, 1), (7 / 10, 2)]
   \<and> int (length (vector_search False qdrant_none fx_three knn_three [1, 0] 2 None)) \<le> 2
   \<and> sorted_wrt (\<lambda>a b. a \<ge> b)
       (map hit_score (faiss_search fx_three knn_three [1, 0] 2 None))
   \<and> map hit_score (faiss_search fx_three knn_three [1, 0] 2 None) = [9 / 10, 7 / 10]"
proof -
  have h1: "(0 :: int) \<le> 2" by simp
  have h2: "\<And>k' raw. knn_three [1, 0] k' = Inr raw
              \<Longrightarrow> length raw \<le> nat k' \<and> sorted_wrt (\<lambda>a b. a \<ge> b) (map fst raw)"
    using knn_three_bounded knn_three_sorted by blast
  show ?thesis
    using vector_search_length_order [of 2 knn_three "[1, 0]" False qdrant_none fx_three None,
        OF h1 h2]
    by (simp add: faiss_three_eval vector_three_eval knn_three_def)
qed

section \<open>Properties of the insertion\<close>

text \<open>The three steps of \<^verbatim>\<open>add_chunks\<close> on units that the index accepts, and what a
  normal return tells of the units.\<close>

lemma embeddings_of_Inr:
  "(embeddings_of chunks = Inr es)
   = (list_all (\<lambda>c. in_embedding c \<noteq> None) chunks
      \<and> es = map (\<lambda>c. the (in_embedding c)) chunks)"
proof (induction chunks arbitrary: es)
  case Nil
  then show ?case by auto
next
  case (Cons c cs)
  show ?case
  proof (cases "in_embedding c")
    case None
    then show ?thesis by simp
  next
    case (Some e)
    show ?thesis
    proof (cases "embeddings_of cs")
      case (Inl err)
      then have "\<not> list_all (\<lambda>c. in_embedding c \<noteq> None) cs" using Cons.IH by auto
      then show ?thesis using Some Inl by simp
    next
      case (Inr es')
      then have "list_all (\<lambda>c. in_embedding c \<noteq> None) cs"
        and "es' = map (\<lambda>c. the (in_embedding c)) cs" using Cons.IH [of es'] by simp_all
      then show ?thesis using Some Inr by auto
    qed
  qed
qed

lemma append_metadata_Inr:
  "list_all has_keys chunks \<Longrightarrow>
   append_metadata md chunks = (Inr (), md @ map meta_of chunks)"
proof (induction chunks arbitrary: md)
  case Nil
  then show ?case by simp
next
  case (Cons c cs)
  then obtain cid tx loc where k: "in_chunk_id c = Some cid" "in_text c = Some tx"
    "in_location c = Some loc" by (auto simp: has_keys_def)
  have "list_all has_keys cs" using Cons.prems by simp
  from Cons.IH [OF this] show ?case using k by (simp add: meta_of_def)
qed

lemma append_metadata_Inl:
  "\<not> list_all has_keys chunks \<Longrightarrow> \<exists>e. fst (append_metadata md chunks) = Inl e"
proof (induction chunks arbitrary: md)
  case Nil
  then show ?case by simp
next
  case (Cons c cs)
  show ?case
  proof (cases "has_keys c")
    case True
    then obtain cid tx loc where k: "in_chunk_id c = Some cid" "in_text c = Some tx"
      "in_location c = Some loc" by (auto simp: has_keys_def)
    have "\<not> list_all has_keys cs" using Cons.prems True by simp
    from Cons.IH [OF this] show ?thesis using k by simp
  next
    case False
    then show ?thesis by (auto simp: has_keys_def split: option.splits)
  qed
qed

lemma accepted_embedding:
  "accepted ix c \<Longrightarrow> \<exists>vs. in_embedding c = Some (Float32Array vs) \<and> length vs = fi_d ix"
  by (auto simp: accepted_def split: option.splits embedding.splits)

lemma accepted_keys: "accepted ix c \<Longrightarrow> has_keys c"
  by (simp add: accepted_def has_keys_def)

lemma index_add_accepted:
  assumes "chunks \<noteq> []" and "list_all (accepted ix) chunks"
  shows "index_add (Some ix) (map (\<lambda>c. the (in_embedding c)) chunks)
         = Inr (ix\<lparr>fi_ntotal := fi_ntotal ix + length chunks\<rparr>)"
proof -
  let ?es = "map (\<lambda>c. the (in_embedding c)) chunks"
  have e: "\<And>e. e \<in> set ?es \<Longrightarrow> is_float32 e \<and> length (components e) = fi_d ix"
  proof -
    fix e assume "e \<in> set ?es"
    then obtain c where "c \<in> set chunks" and "e = the (in_embedding c)" by auto
    moreover from this assms(2) have "accepted ix c" by (simp add: list_all_iff)
    ultimately show "is_float32 e \<and> length (components e) = fi_d ix"
      using accepted_embedding [of ix c] by auto
  qed
  have "?es \<noteq> []" using assms(1) by simp
  then have "hd ?es \<in> set ?es" by (rule hd_in_set)
  then have h: "length (components (hd ?es)) = fi_d ix" using e by blast
  have 1: "\<not> (\<exists>e \<in> set ?es. length (components e) \<noteq> length (components (hd ?es)))"
    using e h by auto
  have 2: "\<not> (\<exists>e \<in> set ?es. \<not> is_float32 e)" using e by blast
  show ?thesis unfolding index_add_def using 1 2 h by simp
qed

lemma index_add_Inr:
  assumes "index_add index es = Inr ix'"
  shows "\<exists>ix. index = Some ix \<and> length (components (hd es)) = fi_d ix
           \<and> (\<forall>e \<in> set es. is_float32 e \<and> length (components e) = fi_d ix)"
  using assms unfolding index_add_def
  by (auto split: if_splits option.splits)

lemma add_chunks_accepted:
  assumes "chunks \<noteq> []" and "fx_index fx = Some ix" and "list_all (accepted ix) chunks"
  shows "add_chunks fx chunks env dk =
           (let fx' = \<lparr>fx_index = Some (ix\<lparr>fi_ntotal := fi_ntotal ix + length chunks\<rparr>),
                       fx_metadata = fx_metadata fx @ map meta_of chunks\<rparr>
            in (Inr (), fx', save_index fx' env dk))"
proof -
  have "list_all (\<lambda>c. in_embedding c \<noteq> None) chunks"
    using assms(3) accepted_embedding by (fastforce simp: list_all_iff)
  then have 1: "embeddings_of chunks = Inr (map (\<lambda>c. the (in_embedding c)) chunks)"
    by (simp add: embeddings_of_Inr)
  have 2: "index_add (fx_index fx) (map (\<lambda>c. the (in_embedding c)) chunks)
           = Inr (ix\<lparr>fi_ntotal := fi_ntotal ix + length chunks\<rparr>)"
    using index_add_accepted [OF assms(1,3)] assms(2) by simp
  have "list_all has_keys chunks" using assms(3) accepted_keys by (auto simp: list_all_iff)
  then have 3: "append_metadata (fx_metadata fx) chunks
                = (Inr (), fx_metadata fx @ map meta_of chunks)"
    by (rule append_metadata_Inr)
  show ?thesis using assms(1) 1 2 3 by (simp add: add_chunks_def Let_def)
qed

lemma add_chunks_Inr:
  assumes "fst (add_chunks fx chunks env dk) = Inr ()" and "chunks \<noteq> []"
  shows "\<exists>ix. fx_index fx = Some ix \<and> list_all (accepted ix) chunks"
proof -
  from assms obtain es where 1: "embeddings_of chunks = Inr es"
    by (auto simp: add_chunks_def split: sum.splits)
  from assms 1 obtain ix' where 2: "index_add (fx_index fx) es = Inr ix'"
    by (auto simp: add_chunks_def split: sum.splits)
  from assms 1 2 have 3: "\<not> (\<exists>e. fst (append_metadata (fx_metadata fx) chunks) = Inl e)"
    by (auto simp: add_chunks_def Let_def split: sum.splits prod.splits)
  then have k: "list_all has_keys chunks" using append_metadata_Inl by blast
  from 1 have p: "list_all (\<lambda>c. in_embedding c \<noteq> None) chunks"
    and es: "es = map (\<lambda>c. the (in_embedding c)) chunks" by (simp_all add: embeddings_of_Inr)
  from index_add_Inr [OF 2] obtain ix where ix: "fx_index fx = Some ix"
    and a: "\<forall>e \<in> set es. is_float32 e \<and> length (components e) = fi_d ix" by blast
  have "accepted ix c" if c: "c \<in> set chunks" for c
  proof -
    from c p obtain e where e: "in_embedding c = Some e" by (auto simp: list_all_iff)
    then have "e \<in> set es" using c es by force
    then have "is_float32 e" and "length (components e) = fi_d ix" using a by simp_all
    then obtain vs where "e = Float32Array vs" and "length vs = fi_d ix" by (cases e) auto
    moreover have "has_keys c" using k c by (simp add: list_all_iff)
    ultimately show ?thesis using e by (simp add: accepted_def has_keys_def)
  qed
  then show ?thesis using ix by (simp add: list_all_iff)
qed

lemma add_chunks_env:
  "fst (add_chunks fx chunks env dk) = fst (add_chunks fx chunks env' dk')
   \<and> fst (snd (add_chunks fx chunks env dk)) = fst (snd (add_chunks fx chunks env' dk'))"
  by (auto simp: add_chunks_def Let_def split: sum.splits prod.splits)

text \<open>
  Claim C3, as stated, fails: when writing the index file raises, \<^verbatim>\<open>add_chunks\<close> returns
  normally; the index in memory holds the new unit and its metadata entry, and the
  files are as before, without the unit.
\<close>

theorem add_chunks_swallows_write_error_counterexample:
  "io_write_index io_disk_full = WriteFails ''No space left on device''
       (Some \<lparr>fi_d = 2, fi_ntotal = 1\<rparr>)
   \<and> fst (add_chunks fx_one [unit_new] io_disk_full disk_one) = Inr ()
   \<and> snd (snd (add_chunks fx_one [unit_new] io_disk_full disk_one)) = disk_one
   \<and> fst (snd (add_chunks fx_one [unit_new] io_disk_full disk_one))
       = \<lparr>fx_index = Some \<lparr>fi_d = 2, fi_ntotal = 2\<rparr>, fx_metadata = [meta_a, meta_of unit_new]\<rparr>
   \<and> disk_one = \<lparr>disk_index = Some \<lparr>fi_d = 2, fi_ntotal = 1\<rparr>, disk_metadata = Some [meta_a]\<rparr>"
  by (simp add: add_chunks_def index_add_def save_index_def meta_of_def Let_def sample_defs)

text \<open>
  Claim C3, amended. Whether \<^verbatim>\<open>add_chunks\<close> raises, and the index it leaves in memory, do
  not depend on the outcome of the writes: an error while saving is logged inside
  \<^verbatim>\<open>_save_index\<close> and not surfaced. \<^verbatim>\<open>add_chunks\<close> returns normally exactly when the list is
  empty or the index exists and accepts every unit (identifier, text and location
  present, vector of 32-bit floats of the dimension of the index). For a non-empty list
  of accepted units, the index in memory then counts the new vectors and its metadata
  is the old metadata followed by the entries of the units, in order; the files hold
  this index and this metadata when both writes succeed; when writing the index file
  raises, the metadata file is not touched and the index file is what the failed write
  left; when writing the metadata file raises, the index file is the new index and the
  metadata file is what the failed write left.
\<close>

theorem add_chunks_persistence:
  "fst (add_chunks fx chunks env dk) = fst (add_chunks fx chunks env' dk')
   \<and> fst (snd (add_chunks fx chunks env dk)) = fst (snd (add_chunks fx chunks env' dk'))
   \<and> (fst (add_chunks fx chunks env dk) = Inr ())
       = (chunks = [] \<or> (\<exists>ix. fx_index fx = Some ix \<and> list_all (accepted ix) chunks))
   \<and> (chunks \<noteq> [] \<and> fx_index fx = Some ix \<and> list_all (accepted ix) chunks \<longrightarrow>
        fst (snd (add_chunks fx chunks env dk))
          = \<lparr>fx_index = Some (ix\<lparr>fi_ntotal := fi_ntotal ix + length chunks\<rparr>),
             fx_metadata = fx_metadata fx @ map meta_of chunks\<rparr>
        \<and> snd (snd (add_chunks fx chunks env dk))
          = (case io_write_index env of
               WriteFails msg left \<Rightarrow> dk\<lparr>disk_index := left\<rparr>
             | Written \<Rightarrow>
                 (case io_dump env of
                    WriteFails msg left \<Rightarrow>
                      dk\<lparr>disk_index := Some (ix\<lparr>fi_ntotal := fi_ntotal ix + length chunks\<rparr>),
                         disk_metadata := left\<rparr>
                  | Written \<Rightarrow>
                      dk\<lparr>disk_index := Some (ix\<lparr>fi_ntotal := fi_ntotal ix + length chunks\<rparr>),
                         disk_metadata := Some (fx_metadata fx @ map meta_of chunks)\<rparr>)))"
proof (intro conjI impI)
  show "fst (add_chunks fx chunks env dk) = fst (add_chunks fx chunks env' dk')"
    using add_chunks_env by blast
  show "fst (snd (add_chunks fx chunks env dk)) = fst (snd (add_chunks fx chunks env' dk'))"
    using add_chunks_env by blast
  show "(fst (add_chunks fx chunks env dk) = Inr ())
       = (chunks = [] \<or> (\<exists>ix. fx_index fx = Some ix \<and> list_all (accepted ix) chunks))"
  proof (cases "chunks = []")
    case True
    then show ?thesis by (simp add: add_chunks_def)
  next
    case False
    show ?thesis
    proof
      assume "fst (add_chunks fx chunks env dk) = Inr ()"
      from add_chunks_Inr [OF this False]
      show "chunks = [] \<or> (\<exists>ix. fx_index fx = Some ix \<and> list_all (accepted ix) chunks)" ..
    next
      assume "chunks = [] \<or> (\<exists>ix. fx_index fx = Some ix \<and> list_all (accepted ix) chunks)"
      then obtain ix where "fx_index fx = Some ix" and "list_all (accepted ix) chunks"
        using False by blast
      from add_chunks_accepted [OF False this]
      show "fst (add_chunks fx chunks env dk) = Inr ()" by (simp add: Let_def)
    qed
  qed
next
  assume a: "chunks \<noteq> [] \<and> fx_index fx = Some ix \<and> list_all (accepted ix) chunks"
  then have e: "add_chunks fx chunks env dk =
           (let fx' = \<lparr>fx_index = Some (ix\<lparr>fi_ntotal := fi_ntotal ix + length chunks\<rparr>),
                       fx_metadata = fx_metadata fx @ map meta_of chunks\<rparr>
            in (Inr (), fx', save_index fx' env dk))"
    using add_chunks_accepted by blast
  show "fst (snd (add_chunks fx chunks env dk))
          = \<lparr>fx_index = Some (ix\<lparr>fi_ntotal := fi_ntotal ix + length chunks\<rparr>),
             fx_metadata = fx_metadata fx @ map meta_of chunks\<rparr>"
    using e by (simp add: Let_def)
  show "snd (snd (add_chunks fx chunks env dk))
          = (case io_write_index env of
               WriteFails msg left \<Rightarrow> dk\<lparr>disk_index := left\<rparr>
             | Written \<Rightarrow>
                 (case io_dump env of
                    WriteFails msg left \<Rightarrow>
                      dk\<lparr>disk_index := Some (ix\<lparr>fi_ntotal := fi_ntotal ix + length chunks\<rparr>),
                         disk_metadata := left\<rparr>
                  | Written \<Rightarrow>
                      dk\<lparr>disk_index := Some (ix\<lparr>fi_ntotal := fi_ntotal ix + length chunks\<rparr>),
                         disk_metadata := Some (fx_metadata fx @ map meta_of chunks)\<rparr>))"
    using e by (simp add: Let_def save_index_def split: write_outcome.splits)
qed

theorem add_chunks_persistence_witness:
  "[unit_new] \<noteq> [] \<and> fx_index fx_one = Some \<lparr>fi_d = 2, fi_ntotal = 1\<rparr>
   \<and> list_all (accepted \<lparr>fi_d = 2, fi_ntotal = 1\<rparr>) [unit_new]
   \<and> io_write_index io_ok = Written \<and> io_dump io_ok = Written
   \<and> fst (add_chunks fx_one [unit_new] io_ok disk_one) = Inr ()
   \<and> fst (snd (add_chunks fx_one [unit_new] io_ok disk_one))
       = \<lparr>fx_index = Some \<lparr>fi_d = 2, fi_ntotal = 2\<rparr>, fx_metadata = [meta_a, meta_of unit_new]\<rparr>
   \<and> snd (snd (add_chunks fx_one [unit_new] io_ok disk_one))
       = \<lparr>disk_index = Some \<lparr>fi_d = 2, fi_ntotal = 2\<rparr>,
          disk_metadata = Some [meta_a, meta_of unit_new]\<rparr>
   \<and> fst (add_chunks fx_one [unit_embedded] io_ok disk_one)
       = Inl (TypeError ''in method fvec_renorm_L2, argument 3 of type float *'')"
proof -
  have h: "[unit_new] \<noteq> []" "fx_index fx_one = Some \<lparr>fi_d = 2, fi_ntotal = 1\<rparr>"
    "list_all (accepted \<lparr>fi_d = 2, fi_ntotal = 1\<rparr>) [unit_new]"
    by (simp_all add: accepted_def sample_defs)
  have t: "fst (add_chunks fx_one [unit_embedded] io_ok disk_one)
       = Inl (TypeError ''in method fvec_renorm_L2, argument 3 of type float *'')"
    by (simp add: add_chunks_def index_add_def unit_embedded_def sample_defs)
  show ?thesis
    using h t
      add_chunks_persistence [of fx_one "[unit_new]" io_ok disk_one io_ok disk_one
        "\<lparr>fi_d = 2, fi_ntotal = 1\<rparr>"]
    by (simp add: io_ok_def disk_one_def fx_one_def)
qed

section \<open>Properties of the chunker: the token budget\<close>

lemma paragraph_loop_invariant:
  assumes "paragraph_loop ck ps current chunks = Inr out"
    and "\<forall>x \<in> set chunks. \<exists>buf. x = strip buf \<and> (buf \<in> P \<or> fits ck buf)"
    and "current = [] \<or> current \<in> P \<or> fits ck current"
    and "set ps \<subseteq> P"
  shows "\<forall>x \<in> set out. \<exists>buf. x = strip buf \<and> (buf \<in> P \<or> fits ck buf)"
  using assms
proof (induction ps arbitrary: current chunks)
  case Nil
  then show ?case by (auto simp: strip_def split: if_splits)
next
  case (Cons p ps)
  show ?case
  proof (cases "strip p = []")
    case True
    with Cons.prems(1) have "paragraph_loop ck ps current chunks = Inr out" by simp
    from Cons.IH [OF this Cons.prems(2,3)] Cons.prems(4) show ?thesis by simp
  next
    case nb: False
    let ?test = "if current \<noteq> [] then current @ [newline, newline] @ p else p"
    from Cons.prems(1) nb obtain toks where toks: "tok_encode ck ?test = Inr toks"
      by (cases "tok_encode ck ?test") (simp_all add: Let_def)
    have pP: "p \<in> P" and psP: "set ps \<subseteq> P" using Cons.prems(4) by simp_all
    show ?thesis
    proof (cases "int (length toks) > chunk_size ck \<and> current \<noteq> []")
      case True
      with Cons.prems(1) nb toks
      have run: "paragraph_loop ck ps p (chunks @ [strip current]) = Inr out"
        by (simp add: Let_def)
      have "current \<in> P \<or> fits ck current" using True Cons.prems(3) by simp
      then have "\<forall>x \<in> set (chunks @ [strip current]). \<exists>buf. x = strip buf \<and> (buf \<in> P \<or> fits ck buf)"
        using Cons.prems(2) by auto
      from Cons.IH [OF run this _ psP] pP show ?thesis by simp
    next
      case False
      with Cons.prems(1) nb toks
      have run: "paragraph_loop ck ps ?test chunks = Inr out"
        by (simp add: Let_def)
      have "?test \<in> P \<or> fits ck ?test"
      proof (cases "current = []")
        case True
        then show ?thesis using pP by simp
      next
        case ne: False
        with False have "int (length toks) \<le> chunk_size ck" by simp
        then have "fits ck ?test" using toks by (simp add: fits_def)
        then show ?thesis ..
      qed
      then have "?test = [] \<or> ?test \<in> P \<or> fits ck ?test" by blast
      from Cons.IH [OF run Cons.prems(2) this psP] show ?thesis .
    qed
  qed
qed

lemma split_large_section_budget:
  assumes "split_large_section ck text = Inr out" and "x \<in> set out"
  shows "\<exists>buf. x = strip buf \<and> (buf \<in> set (split_paragraphs [] text) \<or> fits ck buf)"
  using paragraph_loop_invariant [of ck "split_paragraphs [] text" "[]" "[]" out
      "set (split_paragraphs [] text)"] assms
  by (simp add: split_large_section_def)

lemma create_chunk_data_props:
  assumes "create_chunk_data ck text md pn pt hs sid = Inr c"
  shows "ch_text c = text" "exact_count ck c" "ch_headings c = hs"
  using assms by (auto simp: create_chunk_data_def exact_count_def split: sum.splits)

lemma sub_chunk_loop_props:
  assumes "sub_chunk_loop ck md pn pt hs i j subs = Inr cs" and "c \<in> set cs"
  shows "ch_text c \<in> set subs \<and> exact_count ck c"
  using assms
proof (induction subs arbitrary: j cs)
  case Nil
  then show ?case by simp
next
  case (Cons s subs)
  from Cons.prems(1) obtain c0 cs0 where
    c0: "create_chunk_data ck s md pn pt hs (str_nat i @ ''_'' @ str_nat j) = Inr c0"
    and cs0: "sub_chunk_loop ck md pn pt hs i (Suc j) subs = Inr cs0"
    and cs: "cs = c0 # cs0"
    by (auto split: sum.splits)
  show ?case
  proof (cases "c = c0")
    case True
    then show ?thesis using create_chunk_data_props [OF c0] by simp
  next
    case False
    then have "c \<in> set cs0" using Cons.prems(2) cs by simp
    from Cons.IH [OF cs0 this] show ?thesis by simp
  qed
qed

lemma section_loop_invariant:
  assumes "section_loop ck md pn pt i secs chunks = Inr out"
    and "\<forall>c \<in> set chunks. unit_ok ck P c"
    and "\<forall>s \<in> set secs. set (split_paragraphs [] (sec_text s)) \<subseteq> P"
  shows "\<forall>c \<in> set out. unit_ok ck P c"
  using assms
proof (induction secs arbitrary: i chunks)
  case Nil
  then show ?case by simp
next
  case (Cons s secs)
  have rest: "\<forall>s \<in> set secs. set (split_paragraphs [] (sec_text s)) \<subseteq> P"
    and here: "set (split_paragraphs [] (sec_text s)) \<subseteq> P"
    using Cons.prems(3) by simp_all
  show ?case
  proof (cases "strip (sec_text s) = []")
    case True
    with Cons.prems(1) have "section_loop ck md pn pt (Suc i) secs chunks = Inr out" by simp
    from Cons.IH [OF this Cons.prems(2) rest] show ?thesis .
  next
    case nb: False
    from Cons.prems(1) nb obtain toks where toks: "tok_encode ck (sec_text s) = Inr toks"
      by (cases "tok_encode ck (sec_text s)") simp_all
    show ?thesis
    proof (cases "int (length toks) > chunk_size ck")
      case True
      from Cons.prems(1) nb toks True obtain subs cs where
        subs: "split_large_section ck (sec_text s) = Inr subs"
        and cs: "sub_chunk_loop ck md pn pt (sec_headings s) i 0 subs = Inr cs"
        and run: "section_loop ck md pn pt (Suc i) secs (chunks @ cs) = Inr out"
        by (auto split: sum.splits)
      have "\<forall>c \<in> set cs. unit_ok ck P c"
      proof
        fix c assume c: "c \<in> set cs"
        from sub_chunk_loop_props [OF cs c] have t: "ch_text c \<in> set subs" and e: "exact_count ck c"
          by simp_all
        from split_large_section_budget [OF subs t] here
        have "\<exists>buf. ch_text c = strip buf \<and> (buf \<in> P \<or> fits ck buf)" by blast
        then show "unit_ok ck P c" using e by (simp add: unit_ok_def)
      qed
      then have "\<forall>c \<in> set (chunks @ cs). unit_ok ck P c" using Cons.prems(2) by auto
      from Cons.IH [OF run this rest] show ?thesis .
    next
      case False
      from Cons.prems(1) nb toks False obtain c where
        c: "create_chunk_data ck (sec_text s) md pn pt (sec_headings s) (str_nat i) = Inr c"
        and run: "section_loop ck md pn pt (Suc i) secs (chunks @ [c]) = Inr out"
        by (auto split: sum.splits)
      from create_chunk_data_props [OF c] toks False have "unit_ok ck P c"
        by (simp add: unit_ok_def exact_count_def)
      then have "\<forall>c \<in> set (chunks @ [c]). unit_ok ck P c" using Cons.prems(2) by auto
      from Cons.IH [OF run this rest] show ?thesis .
    qed
  qed
qed

section \<open>Properties of the chunker: the overlap\<close>

declare overlap_loop.simps [simp del]

lemma take_Suc_eq_nth:
  assumes "take (Suc i) xs = take (Suc i) ys" and "j \<le> i"
  shows "take j xs = take j ys" and "j < length xs \<Longrightarrow> j < length ys \<Longrightarrow> xs ! j = ys ! j"
proof -
  have "take j (take (Suc i) xs) = take j (take (Suc i) ys)" using assms(1) by simp
  then show "take j xs = take j ys" using assms(2) by (simp add: min_def)
  assume "j < length xs" "j < length ys"
  moreover have "take (Suc i) xs ! j = take (Suc i) ys ! j" using assms(1) by simp
  ultimately show "xs ! j = ys ! j" using assms(2) by simp
qed

lemma overlap_loop_invariant:
  "overlap_loop ck i cur acc = Inr out \<Longrightarrow> acc = take i cur \<Longrightarrow> i \<le> length cur \<Longrightarrow>
   length out = length cur \<and> take i out = take i cur \<and>
   (i = 0 \<and> cur \<noteq> [] \<longrightarrow> out ! 0 = cur ! 0) \<and>
   (\<forall>j. i \<le> j \<and> 0 < j \<and> j < length cur \<longrightarrow>
      (\<exists>ov. get_overlap_text ck (ch_text (out ! (j - 1))) (chunk_overlap ck) = Inr ov
                \<and> stitched ck ov (cur ! j) (out ! j)))"
proof (induction "length cur - i" arbitrary: i cur acc)
  case 0
  then have "i = length cur" by simp
  with 0 show ?case by (auto simp: overlap_loop.simps)
next
  case (Suc n)
  then have lt: "i < length cur" by simp
  show ?case
  proof (cases "i = 0")
    case True
    with Suc.prems lt have run: "overlap_loop ck (Suc 0) cur ([] @ [cur ! 0]) = Inr out"
      by (subst (asm) overlap_loop.simps) simp
    have a: "[] @ [cur ! 0] = take (Suc 0) cur"
      using lt True by (simp add: take_Suc_conv_app_nth)
    have m: "n = length cur - Suc 0" using Suc.hyps(2) True by simp
    have le: "Suc 0 \<le> length cur" using lt by simp
    from Suc.hyps(1) [OF m run a le]
    have len: "length out = length cur" and tk: "take (Suc 0) out = take (Suc 0) cur"
      and rel: "\<forall>j. Suc 0 \<le> j \<and> 0 < j \<and> j < length cur \<longrightarrow>
        (\<exists>ov. get_overlap_text ck (ch_text (out ! (j - 1))) (chunk_overlap ck) = Inr ov
                \<and> stitched ck ov (cur ! j) (out ! j))"
      by blast+
    have z: "out ! 0 = cur ! 0"
      using take_Suc_eq_nth(2) [OF tk, of 0] len lt True by simp
    have r: "\<forall>j. i \<le> j \<and> 0 < j \<and> j < length cur \<longrightarrow>
        (\<exists>ov. get_overlap_text ck (ch_text (out ! (j - 1))) (chunk_overlap ck) = Inr ov
                \<and> stitched ck ov (cur ! j) (out ! j))"
    proof (intro allI impI)
      fix j assume "i \<le> j \<and> 0 < j \<and> j < length cur"
      then have "Suc 0 \<le> j \<and> 0 < j \<and> j < length cur" by simp
      with rel show "\<exists>ov. get_overlap_text ck (ch_text (out ! (j - 1))) (chunk_overlap ck) = Inr ov
                \<and> stitched ck ov (cur ! j) (out ! j)" by blast
    qed
    show ?thesis using True len z r by simp
  next
    case False
    then have pos: "0 < i" by simp
    from Suc.prems(1) lt pos obtain ov where
      ov: "get_overlap_text ck (ch_text (cur ! (i - 1))) (chunk_overlap ck) = Inr ov"
      by (subst (asm) overlap_loop.simps)
        (cases "get_overlap_text ck (ch_text (cur ! (i - 1))) (chunk_overlap ck)", simp_all)
    have m: "n = length cur - Suc i" using Suc.hyps(2) by simp
    have le: "Suc i \<le> length cur" using lt by simp
    show ?thesis
    proof (cases "ov = []")
      case True
      with Suc.prems(1) lt pos ov
      have run: "overlap_loop ck (Suc i) cur (acc @ [cur ! i]) = Inr out"
        by (subst (asm) overlap_loop.simps) simp
      have a: "acc @ [cur ! i] = take (Suc i) cur"
        using lt Suc.prems(2) by (simp add: take_Suc_conv_app_nth)
      from Suc.hyps(1) [OF m run a le]
      have len: "length out = length cur" and tk: "take (Suc i) out = take (Suc i) cur"
        and rel: "\<forall>j. Suc i \<le> j \<and> 0 < j \<and> j < length cur \<longrightarrow>
          (\<exists>ov. get_overlap_text ck (ch_text (out ! (j - 1))) (chunk_overlap ck) = Inr ov
                \<and> stitched ck ov (cur ! j) (out ! j))"
        by blast+
      have oi: "out ! i = cur ! i"
        using take_Suc_eq_nth(2) [OF tk, of i] len lt by simp
      have op: "out ! (i - 1) = cur ! (i - 1)"
        using take_Suc_eq_nth(2) [OF tk, of "i - 1"] len lt by simp
      have ti: "take i out = take i cur"
        using take_Suc_eq_nth(1) [OF tk, of i] by simp
      have here: "\<exists>ov. get_overlap_text ck (ch_text (out ! (i - 1))) (chunk_overlap ck) = Inr ov
                \<and> stitched ck ov (cur ! i) (out ! i)"
        using ov True oi op by (intro exI [of _ ov]) (simp add: stitched_def)
      have r: "\<forall>j. i \<le> j \<and> 0 < j \<and> j < length cur \<longrightarrow>
        (\<exists>ov. get_overlap_text ck (ch_text (out ! (j - 1))) (chunk_overlap ck) = Inr ov
                \<and> stitched ck ov (cur ! j) (out ! j))"
      proof (intro allI impI)
        fix j assume j: "i \<le> j \<and> 0 < j \<and> j < length cur"
        show "\<exists>ov. get_overlap_text ck (ch_text (out ! (j - 1))) (chunk_overlap ck) = Inr ov
                \<and> stitched ck ov (cur ! j) (out ! j)"
        proof (cases "j = i")
          case True
          with here show ?thesis by simp
        next
          case False
          with j have "Suc i \<le> j \<and> 0 < j \<and> j < length cur" by simp
          with rel show ?thesis by blast
        qed
      qed
      show ?thesis using len ti r pos by simp
    next
      case ne: False
      let ?t = "ov @ [newline, newline] @ ch_text (cur ! i)"
      from Suc.prems(1) lt pos ov ne obtain toks where toks: "tok_encode ck ?t = Inr toks"
        by (subst (asm) overlap_loop.simps) (cases "tok_encode ck ?t", simp_all)
      let ?c = "(cur ! i)\<lparr>ch_text := ?t, ch_token_count := length toks\<rparr>"
      from Suc.prems(1) lt pos ov ne toks
      have run: "overlap_loop ck (Suc i) (cur[i := ?c]) (acc @ [?c]) = Inr out"
        by (subst (asm) overlap_loop.simps) (simp add: Let_def)
      have a: "acc @ [?c] = take (Suc i) (cur[i := ?c])"
        using lt Suc.prems(2) by (simp add: take_Suc_conv_app_nth)
      have m': "n = length (cur[i := ?c]) - Suc i" using m by simp
      have le': "Suc i \<le> length (cur[i := ?c])" using le by simp
      from Suc.hyps(1) [OF m' run a le']
      have len: "length out = length cur"
        and tk: "take (Suc i) out = take (Suc i) (cur[i := ?c])"
        and rel: "\<forall>j. Suc i \<le> j \<and> 0 < j \<and> j < length (cur[i := ?c]) \<longrightarrow>
          (\<exists>ov. get_overlap_text ck (ch_text (out ! (j - 1))) (chunk_overlap ck) = Inr ov
                \<and> stitched ck ov (cur[i := ?c] ! j) (out ! j))"
        by simp_all
      have oi: "out ! i = ?c"
        using take_Suc_eq_nth(2) [OF tk, of i] len lt by simp
      have op: "out ! (i - 1) = cur ! (i - 1)"
        using take_Suc_eq_nth(2) [OF tk, of "i - 1"] len lt pos by simp
      have ti: "take i out = take i cur"
        using take_Suc_eq_nth(1) [OF tk, of i] by simp
      have here: "\<exists>ov. get_overlap_text ck (ch_text (out ! (i - 1))) (chunk_overlap ck) = Inr ov
                \<and> stitched ck ov (cur ! i) (out ! i)"
        using ov ne oi op toks by (intro exI [of _ ov]) (simp add: stitched_def)
      have r: "\<forall>j. i \<le> j \<and> 0 < j \<and> j < length cur \<longrightarrow>
        (\<exists>ov. get_overlap_text ck (ch_text (out ! (j - 1))) (chunk_overlap ck) = Inr ov
                \<and> stitched ck ov (cur ! j) (out ! j))"
      proof (intro allI impI)
        fix j assume j: "i \<le> j \<and> 0 < j \<and> j < length cur"
        show "\<exists>ov. get_overlap_text ck (ch_text (out ! (j - 1))) (chunk_overlap ck) = Inr ov
                \<and> stitched ck ov (cur ! j) (out ! j)"
        proof (cases "j = i")
          case True
          with here show ?thesis by simp
        next
          case False
          with j have jj: "Suc i \<le> j \<and> 0 < j \<and> j < length (cur[i := ?c])" by simp
          from rel [rule_format, OF jj] False show ?thesis by simp
        qed
      qed
      show ?thesis using len ti r pos by simp
    qed
  qed
qed

lemma apply_overlap_chain:
  assumes "apply_overlap ck chunks = Inr out"
  shows "length out = length chunks
       \<and> (chunks \<noteq> [] \<longrightarrow> out ! 0 = chunks ! 0)
       \<and> (\<forall>j. 0 < j \<and> j < length chunks \<longrightarrow>
            (\<exists>ov. get_overlap_text ck (ch_text (out ! (j - 1))) (chunk_overlap ck) = Inr ov
                     \<and> stitched ck ov (chunks ! j) (out ! j)))"
proof (cases "length chunks \<le> 1")
  case True
  with assms have "out = chunks" by (simp add: apply_overlap_def)
  with True show ?thesis by auto
next
  case False
  with assms have "overlap_loop ck 0 chunks [] = Inr out" by (simp add: apply_overlap_def)
  from overlap_loop_invariant [OF this] show ?thesis by simp
qed











section \<open>Properties of the chunker: the token count after the overlap\<close>

lemma stitched_exact:
  "stitched ck ov c c' \<Longrightarrow> exact_count ck c \<Longrightarrow> exact_count ck c'"
  by (auto simp: stitched_def exact_count_def split: if_splits sum.splits)

lemma apply_overlap_exact:
  assumes "apply_overlap ck chunks = Inr out" and "\<forall>c \<in> set chunks. exact_count ck c"
  shows "\<forall>c \<in> set out. exact_count ck c"
proof
  fix c assume "c \<in> set out"
  then obtain j where j: "j < length out" "c = out ! j" by (auto simp: in_set_conv_nth)
  from apply_overlap_chain [OF assms(1)]
  have len: "length out = length chunks"
    and z: "chunks \<noteq> [] \<longrightarrow> out ! 0 = chunks ! 0"
    and ch: "\<forall>j. 0 < j \<and> j < length chunks \<longrightarrow>
            (\<exists>ov. get_overlap_text ck (ch_text (out ! (j - 1))) (chunk_overlap ck) = Inr ov
                     \<and> stitched ck ov (chunks ! j) (out ! j))"
    by blast+
  have e: "exact_count ck (chunks ! j)" using assms(2) j(1) len by simp
  show "exact_count ck c"
  proof (cases "j = 0")
    case True
    with z j len e show ?thesis by auto
  next
    case False
    with ch j len obtain ov where "stitched ck ov (chunks ! j) (out ! j)" by auto
    from stitched_exact [OF this e] j(2) show ?thesis by simp
  qed
qed

text \<open>
  Claim C5, amended. Before the overlap is applied, the \<^verbatim>\<open>token_count\<close> of every unit is
  the number of tokens of its text, and the unit is within \<^verbatim>\<open>chunk_size\<close> or it is a piece
  of a larger section: the stripped form of a buffer that is a single paragraph (kept
  whole, whatever its length) or that has at most \<^verbatim>\<open>chunk_size\<close> tokens. After the
  overlap is applied, \<^verbatim>\<open>token_count\<close> is again the number of tokens of the text.
\<close>

theorem chunker_token_budget:
  "(section_chunks ck text md page_num page_type = Inr chunks \<longrightarrow>
      (\<forall>c \<in> set chunks.
         exact_count ck c
         \<and> (int (ch_token_count c) \<le> chunk_size ck
            \<or> (\<exists>buf. ch_text c = strip buf \<and> (buf \<in> paragraphs_of text \<or> fits ck buf)))))
   \<and> (chunk_by_semantic_boundaries ck text md page_num page_type = Inr out \<longrightarrow>
        (\<forall>c \<in> set out. exact_count ck c))"
proof (intro conjI impI)
  have sub: "\<forall>s \<in> set (split_by_headings text).
          set (split_paragraphs [] (sec_text s)) \<subseteq> paragraphs_of text"
    by (auto simp: paragraphs_of_def)
  {
    fix cs assume a: "section_chunks ck text md page_num page_type = Inr cs"
    from section_loop_invariant [OF a [unfolded section_chunks_def] _ sub]
    have "\<forall>c \<in> set cs. unit_ok ck (paragraphs_of text) c" by simp
  } note pre = this
  show "\<forall>c \<in> set chunks.
         exact_count ck c
         \<and> (int (ch_token_count c) \<le> chunk_size ck
            \<or> (\<exists>buf. ch_text c = strip buf \<and> (buf \<in> paragraphs_of text \<or> fits ck buf)))"
    if "section_chunks ck text md page_num page_type = Inr chunks"
    using pre [OF that] by (simp add: unit_ok_def)
  show "\<forall>c \<in> set out. exact_count ck c"
    if b: "chunk_by_semantic_boundaries ck text md page_num page_type = Inr out"
  proof -
    from b obtain cs where cs: "section_chunks ck text md page_num page_type = Inr cs"
      and ov: "apply_overlap ck cs = Inr out"
      by (auto simp: chunk_by_semantic_boundaries_def split: sum.splits)
    from pre [OF cs] have "\<forall>c \<in> set cs. exact_count ck c" by (simp add: unit_ok_def)
    from apply_overlap_exact [OF ov this] show ?thesis .
  qed
qed

lemma section_chunks_long:
  "section_chunks ck_small ''abcdefgh'' md_plain None ''text'' = Inr [unit_long]"
  by code_simp

theorem chunker_token_budget_witness:
  "section_chunks ck_small ''abcdefgh'' md_plain None ''text'' = Inr [unit_long]
   \<and> exact_count ck_small unit_long
   \<and> \<not> int (ch_token_count unit_long) \<le> chunk_size ck_small
   \<and> ch_text unit_long = strip ''abcdefgh\<newline>''
   \<and> chunk_by_semantic_boundaries ck_small ''abcdefgh'' md_plain None ''text'' = Inr [unit_long]"
proof -
  have t: "ch_text unit_long = strip ''abcdefgh\<newline>''" by code_simp
  have n: "\<not> int (ch_token_count unit_long) \<le> chunk_size ck_small"
    by (simp add: unit_long_def ck_small_def)
  have b: "chunk_by_semantic_boundaries ck_small ''abcdefgh'' md_plain None ''text''
             = Inr [unit_long]"
    by (simp add: chunk_by_semantic_boundaries_def section_chunks_long apply_overlap_def)
  show ?thesis
    using chunker_token_budget [of ck_small "''abcdefgh''" md_plain None "''text''"
        "[unit_long]" "[unit_long]"] section_chunks_long t n b
    by simp
qed

text \<open>
  Claim C5, as stated, fails in both halves, with \<^verbatim>\<open>chunk_size = 5\<close> and
  \<^verbatim>\<open>chunk_overlap = 2\<close>: a single paragraph of 8 tokens is a unit of 8 tokens before the
  overlap; and units of 2, 2 and 4 tokens before the overlap have 2, 6 and 8 tokens
  after it, the last above \<^verbatim>\<open>chunk_size + chunk_overlap\<close>.
\<close>

theorem token_budget_counterexample:
  "map_sum id (map ch_token_count) (section_chunks ck_small ''abcdefgh'' md_plain None ''text'')
     = Inr [8]
   \<and> map_sum id (map ch_token_count)
        (section_chunks ck_small ''ab\<newline>\<newline>cd\<newline>\<newline>efgh'' md_plain None ''text'') = Inr [2, 2, 4]
   \<and> map_sum id (map ch_token_count)
        (chunk_text ck_small ''ab\<newline>\<newline>cd\<newline>\<newline>efgh'' md_plain) = Inr [2, 6, 8]
   \<and> chunk_size ck_small = 5 \<and> chunk_overlap ck_small = 2"
  by code_simp

section \<open>Properties of the chunker: the fallback\<close>

lemma simple_loop_map:
  "chunk_size ck \<noteq> 0 \<Longrightarrow> \<exists>cs. simple_loop ck md tokens starts = Inr cs
     \<and> length cs = length starts
     \<and> (\<forall>k < length starts.
           ch_text (cs ! k) = tok_decode ck (py_slice tokens (starts ! k) (int (starts ! k) + chunk_size ck))
         \<and> ch_headings (cs ! k) = []
         \<and> ch_token_count (cs ! k)
             = length (py_slice tokens (starts ! k) (int (starts ! k) + chunk_size ck)))"
proof (induction starts)
  case Nil
  then show ?case by simp
next
  case (Cons i rest)
  from Cons.IH [OF Cons.prems] obtain cs where cs: "simple_loop ck md tokens rest = Inr cs"
    "length cs = length rest"
    "\<forall>k < length rest.
           ch_text (cs ! k) = tok_decode ck (py_slice tokens (rest ! k) (int (rest ! k) + chunk_size ck))
         \<and> ch_headings (cs ! k) = []
         \<and> ch_token_count (cs ! k)
             = length (py_slice tokens (rest ! k) (int (rest ! k) + chunk_size ck))"
    by blast
  obtain c where c: "simple_loop ck md tokens (i # rest) = Inr (c # cs)"
    "ch_text c = tok_decode ck (py_slice tokens i (int i + chunk_size ck))"
    "ch_headings c = []"
    "ch_token_count c = length (py_slice tokens i (int i + chunk_size ck))"
    using Cons.prems cs(1) by (simp add: Let_def)
  have "\<forall>k < length (i # rest).
           ch_text ((c # cs) ! k) = tok_decode ck (py_slice tokens ((i # rest) ! k) (int ((i # rest) ! k) + chunk_size ck))
         \<and> ch_headings ((c # cs) ! k) = []
         \<and> ch_token_count ((c # cs) ! k)
             = length (py_slice tokens ((i # rest) ! k) (int ((i # rest) ! k) + chunk_size ck))"
  proof (intro allI impI)
    fix k assume "k < length (i # rest)"
    then show "ch_text ((c # cs) ! k) = tok_decode ck (py_slice tokens ((i # rest) ! k) (int ((i # rest) ! k) + chunk_size ck))
         \<and> ch_headings ((c # cs) ! k) = []
         \<and> ch_token_count ((c # cs) ! k)
             = length (py_slice tokens ((i # rest) ! k) (int ((i # rest) ! k) + chunk_size ck))"
      using c(2-4) cs(3) by (cases k) auto
  qed
  then show ?case using c(1) cs(2) by (intro exI [of _ "c # cs"]) simp
qed

lemma py_slice_window:
  "0 < n \<Longrightarrow> py_slice xs a (int a + n) = take (nat n) (drop a xs)"
  by (simp add: py_slice_def Let_def nat_add_distrib)

lemma py_range_props:
  "0 < step \<Longrightarrow> length (py_range stop step) = (stop + nat step - 1) div nat step"
  "0 < step \<Longrightarrow> k < length (py_range stop step) \<Longrightarrow> py_range stop step ! k = k * nat step"
  by (simp_all add: py_range_def)

lemma simple_chunk_windows:
  assumes "tok_encode ck text = Inr tokens"
    and "0 < chunk_size ck" and "chunk_overlap ck < chunk_size ck"
  shows "\<exists>chunks. simple_chunk ck text md = Inr chunks
     \<and> length chunks
         = (length tokens + nat (chunk_size ck - chunk_overlap ck) - 1)
             div nat (chunk_size ck - chunk_overlap ck)
     \<and> (\<forall>k < length chunks.
           ch_text (chunks ! k)
             = tok_decode ck (take (nat (chunk_size ck))
                 (drop (k * nat (chunk_size ck - chunk_overlap ck)) tokens))
         \<and> ch_headings (chunks ! k) = []
         \<and> ch_token_count (chunks ! k)
             = length (take (nat (chunk_size ck))
                 (drop (k * nat (chunk_size ck - chunk_overlap ck)) tokens)))"
proof -
  let ?step = "chunk_size ck - chunk_overlap ck"
  let ?starts = "py_range (length tokens) ?step"
  have step: "0 < ?step" using assms(3) by simp
  have nz: "chunk_size ck \<noteq> 0" using assms(2) by simp
  from simple_loop_map [OF nz, of md tokens ?starts] obtain cs where cs:
    "simple_loop ck md tokens ?starts = Inr cs" "length cs = length ?starts"
    "\<forall>k < length ?starts.
           ch_text (cs ! k) = tok_decode ck (py_slice tokens (?starts ! k) (int (?starts ! k) + chunk_size ck))
         \<and> ch_headings (cs ! k) = []
         \<and> ch_token_count (cs ! k)
             = length (py_slice tokens (?starts ! k) (int (?starts ! k) + chunk_size ck))"
    by blast
  have ct: "simple_chunk ck text md = Inr cs"
    using assms(1) step cs(1) by (simp add: simple_chunk_def)
  have len: "length cs = (length tokens + nat ?step - 1) div nat ?step"
    using cs(2) py_range_props(1) [OF step] by simp
  have "\<forall>k < length cs.
           ch_text (cs ! k) = tok_decode ck (take (nat (chunk_size ck)) (drop (k * nat ?step) tokens))
         \<and> ch_headings (cs ! k) = []
         \<and> ch_token_count (cs ! k)
             = length (take (nat (chunk_size ck)) (drop (k * nat ?step) tokens))"
  proof (intro allI impI)
    fix k assume k: "k < length cs"
    then have kk: "k < length ?starts" using cs(2) by simp
    have st: "?starts ! k = k * nat ?step" using py_range_props(2) [OF step kk] .
    from cs(3) kk st py_slice_window [OF assms(2), of tokens "k * nat ?step"]
    show "ch_text (cs ! k) = tok_decode ck (take (nat (chunk_size ck)) (drop (k * nat ?step) tokens))
         \<and> ch_headings (cs ! k) = []
         \<and> ch_token_count (cs ! k)
             = length (take (nat (chunk_size ck)) (drop (k * nat ?step) tokens))"
      by simp
  qed
  then show ?thesis using ct len by blast
qed

text \<open>
  Claim C7, amended. If the tokenizer encodes the whole text and \<^verbatim>\<open>0 < chunk_size\<close>,
  \<^verbatim>\<open>chunk_overlap < chunk_size\<close>, then \<^verbatim>\<open>chunk_text\<close> does not raise; and whenever the
  semantic path raises, it returns the sliding window of the fallback: unit \<open>k\<close> holds
  the \<^verbatim>\<open>chunk_size\<close> tokens from position \<open>k\<close> times the stride
  \<^verbatim>\<open>chunk_size - chunk_overlap\<close>, without headings, and the units cover the token
  sequence.
\<close>

theorem chunk_text_fallback:
  assumes "tok_encode ck text = Inr tokens"
    and "0 < chunk_size ck" and "chunk_overlap ck < chunk_size ck"
  shows "(\<exists>chunks. chunk_text ck text md = Inr chunks)
     \<and> (\<forall>e. semantic_chunks ck text md = Inl e \<longrightarrow>
          (\<exists>chunks. chunk_text ck text md = Inr chunks
             \<and> length chunks
                 = (length tokens + nat (chunk_size ck - chunk_overlap ck) - 1)
                     div nat (chunk_size ck - chunk_overlap ck)
             \<and> (\<forall>k < length chunks.
                   ch_text (chunks ! k)
                     = tok_decode ck (take (nat (chunk_size ck))
                         (drop (k * nat (chunk_size ck - chunk_overlap ck)) tokens))
                 \<and> ch_headings (chunks ! k) = []
                 \<and> ch_token_count (chunks ! k)
                     = length (take (nat (chunk_size ck))
                         (drop (k * nat (chunk_size ck - chunk_overlap ck)) tokens)))))"
proof -
  from simple_chunk_windows [OF assms, of md] obtain cs where cs:
    "simple_chunk ck text md = Inr cs"
    "length cs = (length tokens + nat (chunk_size ck - chunk_overlap ck) - 1)
                     div nat (chunk_size ck - chunk_overlap ck)"
    "\<forall>k < length cs.
        ch_text (cs ! k)
          = tok_decode ck (take (nat (chunk_size ck))
              (drop (k * nat (chunk_size ck - chunk_overlap ck)) tokens))
      \<and> ch_headings (cs ! k) = []
      \<and> ch_token_count (cs ! k)
          = length (take (nat (chunk_size ck))
              (drop (k * nat (chunk_size ck - chunk_overlap ck)) tokens))"
    by blast
  have fb: "chunk_text ck text md = Inr cs" if "semantic_chunks ck text md = Inl e" for e
    using that cs(1) by (simp add: chunk_text_def)
  have "\<exists>chunks. chunk_text ck text md = Inr chunks"
  proof (cases "semantic_chunks ck text md")
    case (Inl e)
    from fb [OF this] show ?thesis by blast
  next
    case (Inr chunks)
    then show ?thesis by (simp add: chunk_text_def)
  qed
  moreover have "\<forall>e. semantic_chunks ck text md = Inl e \<longrightarrow>
          (\<exists>chunks. chunk_text ck text md = Inr chunks
             \<and> length chunks
                 = (length tokens + nat (chunk_size ck - chunk_overlap ck) - 1)
                     div nat (chunk_size ck - chunk_overlap ck)
             \<and> (\<forall>k < length chunks.
                   ch_text (chunks ! k)
                     = tok_decode ck (take (nat (chunk_size ck))
                         (drop (k * nat (chunk_size ck - chunk_overlap ck)) tokens))
                 \<and> ch_headings (chunks ! k) = []
                 \<and> ch_token_count (chunks ! k)
                     = length (take (nat (chunk_size ck))
                         (drop (k * nat (chunk_size ck - chunk_overlap ck)) tokens))))"
    using fb cs(2,3) by blast
  ultimately show ?thesis by blast
qed

lemma semantic_bad_page: "semantic_chunks ck_small ''abcdefgh'' md_bad_page = Inl AttributeError"
  by (simp add: semantic_chunks_def md_bad_page_def)

lemma encode_abcdefgh:
  "tok_encode ck_small ''abcdefgh'' = Inr [97, 98, 99, 100, 101, 102, 103, 104]"
  by code_simp

lemma fallback_abcdefgh:
  "map_sum id (map ch_text) (chunk_text ck_small ''abcdefgh'' md_bad_page)
     = Inr [''abcde'', ''defgh'', ''gh'']"
  by code_simp

theorem chunk_text_fallback_witness:
  "semantic_chunks ck_small ''abcdefgh'' md_bad_page = Inl AttributeError
   \<and> tok_encode ck_small ''abcdefgh'' = Inr [97, 98, 99, 100, 101, 102, 103, 104]
   \<and> 0 < chunk_size ck_small \<and> chunk_overlap ck_small < chunk_size ck_small
   \<and> map_sum id length (chunk_text ck_small ''abcdefgh'' md_bad_page) = Inr 3
   \<and> map_sum id (map ch_text) (chunk_text ck_small ''abcdefgh'' md_bad_page)
       = Inr [''abcde'', ''defgh'', ''gh'']"
proof -
  have h3: "0 < chunk_size ck_small" and h4: "chunk_overlap ck_small < chunk_size ck_small"
    by (simp_all add: ck_small_def)
  from chunk_text_fallback [OF encode_abcdefgh h3 h4, of md_bad_page] semantic_bad_page
  obtain chunks where c: "chunk_text ck_small ''abcdefgh'' md_bad_page = Inr chunks"
    "length chunks = (length [97, 98, 99, 100, 101, 102, 103, 104 :: nat]
        + nat (chunk_size ck_small - chunk_overlap ck_small) - 1)
        div nat (chunk_size ck_small - chunk_overlap ck_small)"
    by blast
  from c(2) have "length chunks = 3" by (simp add: ck_small_def)
  with c(1) show ?thesis
    using semantic_bad_page encode_abcdefgh h3 h4 fallback_abcdefgh by simp
qed

text \<open>
  Claim C7, as stated, fails: the fallback runs outside of any handler. With the
  default settings, a text that holds a special token makes the tokenizer raise in the
  semantic path and again in the fallback; with \<^verbatim>\<open>chunk_size = chunk_overlap\<close> and a page
  whose text is not a string, the fallback raises on its zero stride.
\<close>

theorem chunk_text_raises_counterexample:
  "chunk_text ck_default ''<|endoftext|>'' md_plain = Inl (ValueError ''disallowed special token'')
   \<and> chunk_text ck_equal ''abcdefgh'' md_bad_page
       = Inl (ValueError ''range() arg 3 must not be zero'')"
  by code_simp

end
